(* ===== verification/Prelude.thy ===== *)
theory Prelude
  imports Main "HOL-Library.Word"
begin

text \<open>
  Shared vocabulary of the development: the machine integers of the code, the outcomes a
  Rust function can have, sequencing of fallible steps (the \<open>?\<close> operator), the
  \<open>for _ in 0..n\<close> loops that collect parsed items, and the big-endian reading and
  writing of integers, with the lemmas the component theories use.
\<close>

section \<open>Machine integers\<close>

type_synonym u8 = "8 word"
type_synonym u16 = "16 word"
type_synonym u32 = "32 word"
type_synonym u64 = "64 word"

section \<open>Hint collections\<close>

named_theorems codec \<open>decoding what was just encoded\<close>
named_theorems keeps \<open>operations that keep a component's invariant\<close>

section \<open>Outcomes\<close>

text \<open>
  A call returns a value, returns an \<open>Err\<close>, panics (a slice read past the end, a failed
  \<open>assert!\<close> of the library) or never returns. The last two are values too, so that
  every theorem about a result says that neither happened.
\<close>

datatype ('e, 'a) outcome = Ok 'a | Err 'e | Panic | Hang

primrec obind :: "('e, 'a) outcome \<Rightarrow> ('a \<Rightarrow> ('e, 'b) outcome) \<Rightarrow> ('e, 'b) outcome" where
  "obind (Ok x) k = k x"
| "obind (Err e) k = Err e"
| "obind Panic k = Panic"
| "obind Hang k = Hang"

lemma obind_eq_Ok: "obind m k = Ok y \<longleftrightarrow> (\<exists>x. m = Ok x \<and> k x = Ok y)"
  by (cases m) auto

lemma obind_eq_Hang: "obind m k = Hang \<longleftrightarrow> m = Hang \<or> (\<exists>x. m = Ok x \<and> k x = Hang)"
  by (cases m) auto

lemma obind_eq_Panic: "obind m k = Panic \<longleftrightarrow> m = Panic \<or> (\<exists>x. m = Ok x \<and> k x = Panic)"
  by (cases m) auto

lemma obind_assoc: "obind (obind m k) l = obind m (\<lambda>x. obind (k x) l)"
  by (cases m) auto

lemma obind_Ok [simp]: "obind m Ok = m"
  by (cases m) auto

lemma obind_cong [fundef_cong]:
  "m = m' \<Longrightarrow> (\<And>x. m' = Ok x \<Longrightarrow> k x = k' x) \<Longrightarrow> obind m k = obind m' k'"
  by (cases m') auto

text \<open>An operation of a library that panics instead of returning.\<close>

definition or_panic :: "'a option \<Rightarrow> ('a \<Rightarrow> ('e, 'b) outcome) \<Rightarrow> ('e, 'b) outcome" where
  "or_panic r k = (case r of None \<Rightarrow> Panic | Some x \<Rightarrow> k x)"

lemma or_panic_cong [fundef_cong]:
  "r = r' \<Longrightarrow> (\<And>x. r' = Some x \<Longrightarrow> k x = k' x) \<Longrightarrow> or_panic r k = or_panic r' k'"
  by (cases r') (auto simp: or_panic_def)

lemma or_panic_eq_Ok: "or_panic r k = Ok y \<longleftrightarrow> (\<exists>x. r = Some x \<and> k x = Ok y)"
  and or_panic_eq_Hang: "or_panic r k = Hang \<longleftrightarrow> (\<exists>x. r = Some x \<and> k x = Hang)"
  by (cases r; simp add: or_panic_def)+

lemma or_panic_simps [simp]: "or_panic None k = Panic" "or_panic (Some x) k = k x"
  by (simp_all add: or_panic_def)

text \<open>The loops \<open>for _ in 0..n { v.push(item(&mut cursor)?); }\<close>.\<close>

fun repeat_n :: "('c \<Rightarrow> ('e, 'a \<times> 'c) outcome) \<Rightarrow> nat \<Rightarrow> 'c \<Rightarrow> ('e, 'a list \<times> 'c) outcome" where
  "repeat_n p 0 c = Ok ([], c)"
| "repeat_n p (Suc n) c =
     obind (p c) (\<lambda>(x, c1). obind (repeat_n p n c1) (\<lambda>(xs, c2). Ok (x # xs, c2)))"

lemma repeat_n_length: "repeat_n p n c = Ok (xs, c') \<Longrightarrow> length xs = n"
  by (induction n arbitrary: c xs) (auto simp: obind_eq_Ok)

lemma repeat_n_not_Hang:
  "(\<And>c. p c \<noteq> Hang) \<Longrightarrow> repeat_n p n c \<noteq> Hang"
  by (induction n arbitrary: c) (auto simp: obind_eq_Hang)

lemma repeat_n_add:
  "repeat_n p (m + n) c =
    obind (repeat_n p m c) (\<lambda>(xs, c1). obind (repeat_n p n c1) (\<lambda>(ys, c2). Ok (xs @ ys, c2)))"
  by (induction m arbitrary: c)
    (auto simp: obind_assoc split_beta intro!: obind_cong
      split: prod.split simp del: split_paired_All)

lemma repeat_n_Panic_iff:
  "repeat_n p k c = Panic \<longleftrightarrow> (\<exists>n<k. \<exists>xs c'. repeat_n p n c = Ok (xs, c') \<and> p c' = Panic)"
proof (induction k arbitrary: c)
  case (Suc k)
  show ?case unfolding Ex_less_Suc2
    by (cases "p c") (auto simp: obind_eq_Ok obind_eq_Panic Suc, blast+)
qed simp

section \<open>Lists\<close>

lemma ex_split_Cons:
  "(\<exists>pre v post. u # us = pre @ v # post \<and> P pre v post) \<longleftrightarrow>
    P [] u us \<or> (\<exists>pre v post. us = pre @ v # post \<and> P (u # pre) v post)"
  by (auto simp: Cons_eq_append_conv)

section \<open>Big-endian integers\<close>

definition be16 :: "u8 \<Rightarrow> u8 \<Rightarrow> u16" where
  "be16 a b = word_of_nat (unat a * 256 + unat b)"

definition be32 :: "u8 \<Rightarrow> u8 \<Rightarrow> u8 \<Rightarrow> u8 \<Rightarrow> u32" where
  "be32 a b c d = word_of_nat (((unat a * 256 + unat b) * 256 + unat c) * 256 + unat d)"

definition bytes16 :: "u16 \<Rightarrow> u8 list" where
  "bytes16 w = [word_of_nat (unat w div 256), word_of_nat (unat w)]"

definition bytes32 :: "u32 \<Rightarrow> u8 list" where
  "bytes32 w = [word_of_nat (unat w div 16777216), word_of_nat (unat w div 65536),
     word_of_nat (unat w div 256), word_of_nat (unat w)]"

lemma unat_u8_lt [simp]: "unat (b :: u8) < 256"
  using unsigned_less [of b] by simp

lemma unat_u16_lt [simp]: "unat (b :: u16) < 65536"
  using unsigned_less [of b] by simp

lemma unat_u32_lt [simp]: "unat (b :: u32) < 4294967296"
  using unsigned_less [of b] by simp

lemma length_bytes16 [simp]: "length (bytes16 w) = 2"
  by (simp add: bytes16_def)

lemma length_bytes32 [simp]: "length (bytes32 w) = 4"
  by (simp add: bytes32_def)

lemma unat_word_of_nat_u8 [simp]: "unat (word_of_nat n :: u8) = n mod 256"
  by (simp add: unat_of_nat)

lemma unat_word_of_nat_u16 [simp]: "unat (word_of_nat n :: u16) = n mod 65536"
  by (simp add: unat_of_nat)

lemma div_mod_256: "(n::nat) div (256 * k) * 256 + n div k mod 256 = n div k"
  by (simp add: div_mult2_eq [of n k 256] mult.commute [of 256])

lemma be16_eqI: "unat a * 256 + unat b = unat w \<Longrightarrow> be16 a b = w"
  by (simp only: be16_def of_nat_unat) (simp add: unsigned_ucast_eq)

lemma be32_eqI:
  "((unat a * 256 + unat b) * 256 + unat c) * 256 + unat d = unat w \<Longrightarrow> be32 a b c d = w"
  by (simp only: be32_def of_nat_unat) (simp add: unsigned_ucast_eq)

lemma be16_bytes16 [codec]: "be16 (bytes16 w ! 0) (bytes16 w ! 1) = w"
proof (rule be16_eqI)
  have "unat w div 256 < 256"
    using unat_u16_lt [of w] by linarith
  then show "unat (bytes16 w ! 0) * 256 + unat (bytes16 w ! 1) = unat w"
    by (simp add: bytes16_def del: of_nat_unat)
qed

lemma be32_bytes32 [codec]:
  "be32 (bytes32 w ! 0) (bytes32 w ! 1) (bytes32 w ! 2) (bytes32 w ! 3) = w"
proof (rule be32_eqI)
  have "unat w div 16777216 < 256"
    using unat_u32_lt [of w] by linarith
  then show "((unat (bytes32 w ! 0) * 256 + unat (bytes32 w ! 1)) * 256 + unat (bytes32 w ! 2)) * 256
      + unat (bytes32 w ! 3) = unat w"
    using div_mod_256 [of "unat w" 65536] div_mod_256 [of "unat w" 256]
      div_mod_256 [of "unat w" 1]
    by (simp add: bytes32_def numeral_2_eq_2 numeral_3_eq_3 del: of_nat_unat)
qed

end
