(* ===== verification/ByteIO.thy ===== *)
theory ByteIO
  imports Prelude
begin

text \<open>
  Byte buffers. The cursor is the standard library's \<open>std::io::Cursor<&[u8]>\<close>: a slice and a
  position. The methods that read through it and those that append to a \<open>BytesMut\<close> come from
  the \<open>bytes\<close> crate (traits \<open>Buf\<close> and \<open>BufMut\<close>), which is not part of the repository: they
  are a parameter, the record \<open>buf_api\<close>, and the locale \<open>byte_io\<close> states their documented
  behaviour. A read that the crate would answer by a panic is \<open>None\<close>. The content of a
  \<open>BytesMut\<close> is the list of the bytes put so far.
\<close>

section \<open>The cursor\<close>

record cursor =
  cur_data :: "u8 list"
  cur_pos :: nat

definition new_cursor :: "u8 list \<Rightarrow> cursor" where
  "new_cursor d = \<lparr>cur_data = d, cur_pos = 0\<rparr>"

definition set_position :: "nat \<Rightarrow> cursor \<Rightarrow> cursor" where
  "set_position p c = c\<lparr>cur_pos := p\<rparr>"

definition advance :: "nat \<Rightarrow> cursor \<Rightarrow> cursor" where
  "advance n c = c\<lparr>cur_pos := cur_pos c + n\<rparr>"

definition left_in :: "cursor \<Rightarrow> nat" where
  "left_in c = length (cur_data c) - cur_pos c"

lemma cursor_simps [simp]:
  "cur_data (set_position p c) = cur_data c" "cur_pos (set_position p c) = p"
  "cur_data (advance n c) = cur_data c" "cur_pos (advance n c) = cur_pos c + n"
  "cur_data (new_cursor d) = d" "cur_pos (new_cursor d) = 0"
  by (simp_all add: set_position_def advance_def new_cursor_def)

lemma advance_advance [simp]: "advance m (advance n c) = advance (n + m) c"
  by (simp add: advance_def add.assoc)

lemma advance_0 [simp]: "advance 0 c = c"
  by (simp add: advance_def)

section \<open>The interface\<close>

record buf_api =
  buf_remaining :: "cursor \<Rightarrow> nat"
  buf_get_u8 :: "cursor \<Rightarrow> (u8 \<times> cursor) option"
  buf_get_u16 :: "cursor \<Rightarrow> (u16 \<times> cursor) option"
  buf_get_u32 :: "cursor \<Rightarrow> (u32 \<times> cursor) option"
  buf_copy_to_slice :: "nat \<Rightarrow> cursor \<Rightarrow> (u8 list \<times> cursor) option"
  buf_put_u8 :: "u8 \<Rightarrow> u8 list \<Rightarrow> u8 list"
  buf_put_u16 :: "u16 \<Rightarrow> u8 list \<Rightarrow> u8 list"
  buf_put_u32 :: "u32 \<Rightarrow> u8 list \<Rightarrow> u8 list"
  buf_put_slice :: "u8 list \<Rightarrow> u8 list \<Rightarrow> u8 list"

text \<open>\<open>has_remaining()\<close> is documented as \<open>remaining() != 0\<close>.\<close>

definition has_remaining :: "buf_api \<Rightarrow> cursor \<Rightarrow> bool" where
  "has_remaining B c \<longleftrightarrow> buf_remaining B c \<noteq> 0"

locale byte_io =
  fixes B :: buf_api
  assumes remaining: "buf_remaining B c = left_in c"
    and get_u8: "buf_get_u8 B c =
      (if 1 \<le> left_in c then Some (cur_data c ! cur_pos c, advance 1 c) else None)"
    and get_u16: "buf_get_u16 B c =
      (if 2 \<le> left_in c
       then Some (be16 (cur_data c ! cur_pos c) (cur_data c ! (cur_pos c + 1)), advance 2 c)
       else None)"
    and get_u32: "buf_get_u32 B c =
      (if 4 \<le> left_in c
       then Some (be32 (cur_data c ! cur_pos c) (cur_data c ! (cur_pos c + 1))
           (cur_data c ! (cur_pos c + 2)) (cur_data c ! (cur_pos c + 3)), advance 4 c)
       else None)"
    and copy_to_slice: "buf_copy_to_slice B n c =
      (if n \<le> left_in c then Some (take n (drop (cur_pos c) (cur_data c)), advance n c) else None)"
    and put_u8: "buf_put_u8 B b out = out @ [b]"
    and put_u16: "buf_put_u16 B w out = out @ bytes16 w"
    and put_u32: "buf_put_u32 B v out = out @ bytes32 v"
    and put_slice: "buf_put_slice B bs out = out @ bs"
begin

lemmas put = put_u8 put_u16 put_u32 put_slice
lemmas reads = remaining get_u8 get_u16 get_u32 copy_to_slice has_remaining_def

end

section \<open>Reading what was written\<close>

text \<open>\<open>between pre post\<close>: the cursor between two stretches of a buffer.\<close>

definition between :: "u8 list \<Rightarrow> u8 list \<Rightarrow> cursor" where
  "between pre post = \<lparr>cur_data = pre @ post, cur_pos = length pre\<rparr>"

lemma left_in_between [simp]: "left_in (between pre post) = length post"
  by (simp add: left_in_def between_def)

lemma advance_between: "advance (length bs) (between pre (bs @ post)) = between (pre @ bs) post"
  by (simp add: advance_def between_def)

lemma between_pos [simp]: "cur_pos (between pre post) = length pre"
  and between_data [simp]: "cur_data (between pre post) = pre @ post"
  by (simp_all add: between_def)

lemma new_cursor_between: "new_cursor d = between [] d"
  by (simp add: new_cursor_def between_def)

context byte_io
begin

lemma get_u8_between [codec]:
  "buf_get_u8 B (between pre (b # post)) = Some (b, between (pre @ [b]) post)"
  using advance_between [of "[b]" pre post] by (simp add: get_u8)

lemma get_u16_between [codec]:
  "buf_get_u16 B (between pre (bytes16 w @ post)) = Some (w, between (pre @ bytes16 w) post)"
  using advance_between [of "bytes16 w" pre post] be16_bytes16 [of w]
  by (simp add: get_u16 nth_append)

lemma get_u32_between [codec]:
  "buf_get_u32 B (between pre (bytes32 w @ post)) = Some (w, between (pre @ bytes32 w) post)"
  using advance_between [of "bytes32 w" pre post] be32_bytes32 [of w]
  by (simp add: get_u32 nth_append)

lemma copy_between [codec]:
  "n = length bs \<Longrightarrow>
    buf_copy_to_slice B n (between pre (bs @ post)) = Some (bs, between (pre @ bs) post)"
  using advance_between [of bs pre post] by (simp add: copy_to_slice)

end

section \<open>The interface on a byte list\<close>

text \<open>
  The documented methods, computed on the slice itself. This is the only interface that
  satisfies the laws (\<open>byte_io_unique\<close>); witnesses evaluate with it.
\<close>

definition slice_api :: buf_api where
  "slice_api = \<lparr>
     buf_remaining = left_in,
     buf_get_u8 = (\<lambda>c. if 1 \<le> left_in c then Some (cur_data c ! cur_pos c, advance 1 c) else None),
     buf_get_u16 = (\<lambda>c. if 2 \<le> left_in c
        then Some (be16 (cur_data c ! cur_pos c) (cur_data c ! (cur_pos c + 1)), advance 2 c)
        else None),
     buf_get_u32 = (\<lambda>c. if 4 \<le> left_in c
        then Some (be32 (cur_data c ! cur_pos c) (cur_data c ! (cur_pos c + 1))
            (cur_data c ! (cur_pos c + 2)) (cur_data c ! (cur_pos c + 3)), advance 4 c)
        else None),
     buf_copy_to_slice = (\<lambda>n c. if n \<le> left_in c
        then Some (take n (drop (cur_pos c) (cur_data c)), advance n c) else None),
     buf_put_u8 = (\<lambda>b out. out @ [b]),
     buf_put_u16 = (\<lambda>w out. out @ bytes16 w),
     buf_put_u32 = (\<lambda>v out. out @ bytes32 v),
     buf_put_slice = (\<lambda>bs out. out @ bs)\<rparr>"

interpretation slice: byte_io slice_api
  by unfold_locales (simp_all add: slice_api_def)

lemma byte_io_unique: "byte_io B \<Longrightarrow> B = slice_api"
  by (rule buf_api.equality)
    (simp_all add: fun_eq_iff byte_io_def slice_api_def)

end
