(* ===== verification/Header.thy ===== *)
theory Header
  imports ByteIO
begin

unbundle bit_operations_syntax

text \<open>
  \<open>protocol/header.rs\<close> and the error type of \<open>protocol/mod.rs\<close>: the fixed 12-byte DNS header
  (RFC 1035, 4.1.1), its flag word and its two enumerations.
\<close>

section \<open>Errors\<close>

datatype dns_error =
    BufferTooShort string
  | InvalidDomainName string
  | ParseError string

section \<open>Opcode and response code\<close>

datatype opcode = Query | IQuery | Status | Reserved

definition opcode_from_u8 :: "u8 \<Rightarrow> opcode" where
  "opcode_from_u8 v =
     (if v = 0 then Query else if v = 1 then IQuery else if v = 2 then Status else Reserved)"

text \<open>The discriminants, as \<open>opcode as u16\<close> reads them.\<close>

primrec opcode_u16 :: "opcode \<Rightarrow> u16" where
  "opcode_u16 Query = 0"
| "opcode_u16 IQuery = 1"
| "opcode_u16 Status = 2"
| "opcode_u16 Reserved = 3"

datatype response_code = NoError | FormErr | ServFail | NXDomain | NotImp | Refused

definition rcode_from_u8 :: "u8 \<Rightarrow> response_code" where
  "rcode_from_u8 v =
     (if v = 0 then NoError else if v = 1 then FormErr else if v = 2 then ServFail
      else if v = 3 then NXDomain else if v = 4 then NotImp else if v = 5 then Refused
      else ServFail)"

primrec rcode_to_u8 :: "response_code \<Rightarrow> u8" where
  "rcode_to_u8 NoError = 0"
| "rcode_to_u8 FormErr = 1"
| "rcode_to_u8 ServFail = 2"
| "rcode_to_u8 NXDomain = 3"
| "rcode_to_u8 NotImp = 4"
| "rcode_to_u8 Refused = 5"

section \<open>The header\<close>

record dns_header =
  id_of :: u16
  is_response :: bool
  opcode_of :: opcode
  authoritative_answer :: bool
  truncated :: bool
  recursion_desired :: bool
  recursion_available :: bool
  rcode :: response_code
  qdcount :: u16
  ancount :: u16
  nscount :: u16
  arcount :: u16

definition header_parse :: "buf_api \<Rightarrow> cursor \<Rightarrow> (dns_error, dns_header \<times> cursor) outcome" where
  "header_parse B c0 =
     (if buf_remaining B c0 < 12
      then Err (BufferTooShort ''DNS header requires 12 bytes'')
      else
        or_panic (buf_get_u16 B c0) (\<lambda>(hid, c1).
        or_panic (buf_get_u16 B c1) (\<lambda>(flags, c2).
        let is_resp = (flags AND 0x8000 \<noteq> 0);
            opc = opcode_from_u8 (ucast (drop_bit 11 flags AND 0x0F));
            aa = (flags AND 0x0400 \<noteq> 0);
            tc = (flags AND 0x0200 \<noteq> 0);
            rd = (flags AND 0x0100 \<noteq> 0);
            ra = (flags AND 0x0080 \<noteq> 0);
            rc = rcode_from_u8 (ucast (flags AND 0x000F))
        in
        or_panic (buf_get_u16 B c2) (\<lambda>(qd, c3).
        or_panic (buf_get_u16 B c3) (\<lambda>(an, c4).
        or_panic (buf_get_u16 B c4) (\<lambda>(ns, c5).
        or_panic (buf_get_u16 B c5) (\<lambda>(ar, c6).
        Ok (\<lparr>id_of = hid, is_response = is_resp, opcode_of = opc, authoritative_answer = aa,
             truncated = tc, recursion_desired = rd, recursion_available = ra, rcode = rc,
             qdcount = qd, ancount = an, nscount = ns, arcount = ar\<rparr>, c6))))))))"

definition header_flags :: "dns_header \<Rightarrow> u16" where
  "header_flags h =
     (let f0 = (0 :: u16);
          f1 = (if is_response h then f0 OR 0x8000 else f0);
          f2 = f1 OR push_bit 11 (opcode_u16 (opcode_of h) AND 0x0F);
          f3 = (if authoritative_answer h then f2 OR 0x0400 else f2);
          f4 = (if truncated h then f3 OR 0x0200 else f3);
          f5 = (if recursion_desired h then f4 OR 0x0100 else f4);
          f6 = (if recursion_available h then f5 OR 0x0080 else f5)
      in f6 OR (ucast (rcode_to_u8 (rcode h)) AND 0x000F))"

definition header_write :: "buf_api \<Rightarrow> dns_header \<Rightarrow> u8 list \<Rightarrow> u8 list" where
  "header_write B h out =
     (let out = buf_put_u16 B (id_of h) out;
          out = buf_put_u16 B (header_flags h) out;
          out = buf_put_u16 B (qdcount h) out;
          out = buf_put_u16 B (ancount h) out;
          out = buf_put_u16 B (nscount h) out
      in buf_put_u16 B (arcount h) out)"

section \<open>Lemmas\<close>

lemma opcode_roundtrip [codec]: "opcode_from_u8 (ucast (opcode_u16 x)) = x"
  by (cases x) (simp_all add: opcode_from_u8_def)

lemma rcode_roundtrip [codec]: "rcode_from_u8 (rcode_to_u8 x) = x"
  by (cases x) (simp_all add: rcode_from_u8_def)

text \<open>
  The flag word as a disjunction of independent contributions; masking distributes over it,
  so each field is read back from the bits it was written to.
\<close>

definition flag :: "bool \<Rightarrow> u16 \<Rightarrow> u16" where
  "flag b w = (if b then w else 0)"

definition opcode_bits :: "opcode \<Rightarrow> u16" where
  "opcode_bits x = push_bit 11 (opcode_u16 x AND 0x0F)"

definition rcode_bits :: "response_code \<Rightarrow> u16" where
  "rcode_bits r = ucast (rcode_to_u8 r) AND 0x000F"

lemma header_flags_sum:
  "header_flags h = flag (is_response h) 0x8000 OR (opcode_bits (opcode_of h)
     OR (flag (authoritative_answer h) 0x0400 OR (flag (truncated h) 0x0200
     OR (flag (recursion_desired h) 0x0100 OR (flag (recursion_available h) 0x0080
     OR rcode_bits (rcode h))))))"
  by (simp add: header_flags_def Let_def flag_def opcode_bits_def rcode_bits_def or.assoc)

lemma flag_and: "flag b w AND m = flag b (w AND m)"
  by (simp add: flag_def)

lemma flag_0: "flag b 0 = 0"
  by (simp add: flag_def)

lemma flag_nonzero: "w \<noteq> 0 \<Longrightarrow> flag b w \<noteq> 0 \<longleftrightarrow> b"
  by (simp add: flag_def)

lemma opcode_bits_and:
  "opcode_bits x AND 0x8000 = 0" "opcode_bits x AND 0x0400 = 0" "opcode_bits x AND 0x0200 = 0"
  "opcode_bits x AND 0x0100 = 0" "opcode_bits x AND 0x0080 = 0" "opcode_bits x AND 0x000F = 0"
  "opcode_bits x AND 0x7800 = opcode_bits x"
  by (cases x; simp add: opcode_bits_def)+

lemma rcode_bits_and:
  "rcode_bits x AND 0x8000 = 0" "rcode_bits x AND 0x0400 = 0" "rcode_bits x AND 0x0200 = 0"
  "rcode_bits x AND 0x0100 = 0" "rcode_bits x AND 0x0080 = 0" "rcode_bits x AND 0x7800 = 0"
  "rcode_bits x AND 0x000F = rcode_bits x"
  by (cases x; simp add: rcode_bits_def)+

lemmas header_flags_and = header_flags_sum bit.conj_disj_distrib2 flag_and flag_0
  opcode_bits_and rcode_bits_and

lemma opcode_field: "drop_bit 11 f AND 0x0F = drop_bit 11 (f AND 0x7800)" for f :: u16
  by (simp add: drop_bit_and)

lemma header_flags_fields [codec]:
  "header_flags h AND 0x8000 \<noteq> 0 \<longleftrightarrow> is_response h"
  "opcode_from_u8 (ucast (drop_bit 11 (header_flags h) AND 0x0F)) = opcode_of h"
  "header_flags h AND 0x0400 \<noteq> 0 \<longleftrightarrow> authoritative_answer h"
  "header_flags h AND 0x0200 \<noteq> 0 \<longleftrightarrow> truncated h"
  "header_flags h AND 0x0100 \<noteq> 0 \<longleftrightarrow> recursion_desired h"
  "header_flags h AND 0x0080 \<noteq> 0 \<longleftrightarrow> recursion_available h"
  "rcode_from_u8 (ucast (header_flags h AND 0x000F)) = rcode h"
proof -
  show "opcode_from_u8 (ucast (drop_bit 11 (header_flags h) AND 0x0F)) = opcode_of h"
    unfolding opcode_field by (simp add: header_flags_and)
      (cases "opcode_of h"; simp add: opcode_bits_def opcode_from_u8_def)
  show "rcode_from_u8 (ucast (header_flags h AND 0x000F)) = rcode h"
    by (simp add: header_flags_and)
      (cases "rcode h"; simp add: rcode_bits_def rcode_from_u8_def)
qed (simp_all add: header_flags_and flag_nonzero)

context byte_io
begin

lemma header_write_bytes:
  "header_write B h out = out @ bytes16 (id_of h) @ bytes16 (header_flags h) @ bytes16 (qdcount h)
     @ bytes16 (ancount h) @ bytes16 (nscount h) @ bytes16 (arcount h)"
  by (simp add: header_write_def Let_def put)

text \<open>What was written is read back, and the cursor ends right behind it.\<close>

lemma header_parse_write [codec]:
  "header_parse B (between pre (header_write B h [] @ post)) =
     Ok (h, between (pre @ header_write B h []) post)"
proof -
  have ge: "\<not> buf_remaining B (between pre (header_write B h [] @ post)) < 12"
    by (simp add: remaining header_write_bytes)
  then show ?thesis
    unfolding header_parse_def if_not_P [OF ge] header_write_bytes
    by (simp add: get_u16_between header_flags_fields [unfolded not_not] Let_def del: append_assoc)
      (simp add: get_u16_between header_flags_fields Let_def)
qed

end

section \<open>Round trip\<close>

text \<open>A header written to a buffer is read back field by field (all flags, the opcode, the
  response code and the four counts), and the cursor then stands 12 bytes further.\<close>

lemma header_roundtrip:
  assumes "byte_io B"
  shows "header_parse B (new_cursor (header_write B h [] @ rest)) =
    Ok (h, set_position 12 (new_cursor (header_write B h [] @ rest)))"
  using byte_io.header_parse_write [OF assms, of "[]" h rest]
  by (simp add: new_cursor_between set_position_def between_def byte_io.header_write_bytes [OF assms])

definition sample_header :: dns_header where
  "sample_header = \<lparr>id_of = 4660, is_response = True, opcode_of = Status,
     authoritative_answer = False, truncated = True, recursion_desired = True,
     recursion_available = False, rcode = Refused, qdcount = 1, ancount = 2, nscount = 0,
     arcount = 65535\<rparr>"

end
