(* ===== verification/RustString.thy ===== *)
theory RustString
  imports Prelude "HOL-Library.Sublist"
begin

text \<open>
  The operations of Rust's \<open>String\<close> and \<open>str\<close> that the code uses. A string is the list of
  its characters (Unicode scalar values, as numbers); its bytes are its UTF-8 encoding. The
  Unicode character database is data of the toolchain's version: the lower-case mapping and
  the two case properties of characters outside ASCII are a parameter, and every operation
  on ASCII characters computes.
\<close>

section \<open>Characters\<close>

type_synonym rchar = nat
type_synonym rstr = "rchar list"

record unicode =
  uc_to_lower :: "rchar \<Rightarrow> rchar list"
  uc_cased :: "rchar \<Rightarrow> bool"
  uc_case_ignorable :: "rchar \<Rightarrow> bool"

definition lit :: "string \<Rightarrow> rstr" where
  "lit s = map of_char s"

definition scalar :: "rchar \<Rightarrow> bool" where
  "scalar c \<longleftrightarrow> c < 55296 \<or> 57344 \<le> c \<and> c < 1114112"

definition ascii :: "rstr \<Rightarrow> bool" where
  "ascii s \<longleftrightarrow> list_all (\<lambda>c. c < 128) s"

text \<open>\<open>char::is_whitespace\<close>: the property White\_Space.\<close>

definition is_ws :: "rchar \<Rightarrow> bool" where
  "is_ws c \<longleftrightarrow> 9 \<le> c \<and> c \<le> 13 \<or> c = 32 \<or> c = 133 \<or> c = 160 \<or> c = 5760 \<or>
     8192 \<le> c \<and> c \<le> 8202 \<or> c = 8232 \<or> c = 8233 \<or> c = 8239 \<or> c = 8287 \<or> c = 12288"

section \<open>Lower case\<close>

definition ascii_lower :: "rchar \<Rightarrow> rchar" where
  "ascii_lower c = (if 65 \<le> c \<and> c \<le> 90 then c + 32 else c)"

definition char_lower :: "unicode \<Rightarrow> rchar \<Rightarrow> rstr" where
  "char_lower U c = (if c < 128 then [ascii_lower c] else uc_to_lower U c)"

definition cased :: "unicode \<Rightarrow> rchar \<Rightarrow> bool" where
  "cased U c = (if c < 128 then 65 \<le> c \<and> c \<le> 90 \<or> 97 \<le> c \<and> c \<le> 122 else uc_cased U c)"

definition case_ignorable :: "unicode \<Rightarrow> rchar \<Rightarrow> bool" where
  "case_ignorable U c =
     (if c < 128 then c \<in> {39, 46, 58, 94, 96} else uc_case_ignorable U c)"

fun ignorable_then_cased :: "unicode \<Rightarrow> rstr \<Rightarrow> bool" where
  "ignorable_then_cased U [] = False"
| "ignorable_then_cased U (c # s) =
     (if case_ignorable U c then ignorable_then_cased U s else cased U c)"

text \<open>
  \<open>str::to_lowercase\<close>. A capital sigma (U+03A3) becomes the final form U+03C2 at the end of a
  word and U+03C3 elsewhere; the first list argument holds the characters already passed,
  latest first.
\<close>

fun lower_from :: "unicode \<Rightarrow> rstr \<Rightarrow> rstr \<Rightarrow> rstr" where
  "lower_from U before [] = []"
| "lower_from U before (c # rest) =
     (if c = 931
      then [if ignorable_then_cased U before \<and> \<not> ignorable_then_cased U rest then 962 else 963]
      else char_lower U c)
     @ lower_from U (c # before) rest"

definition to_lowercase :: "unicode \<Rightarrow> rstr \<Rightarrow> rstr" where
  "to_lowercase U s = lower_from U [] s"

section \<open>Trimming, splitting, searching\<close>

definition trim :: "rstr \<Rightarrow> rstr" where
  "trim s = rev (dropWhile is_ws (rev (dropWhile is_ws s)))"

definition trim_end_char :: "rchar \<Rightarrow> rstr \<Rightarrow> rstr" where
  "trim_end_char d s = rev (dropWhile (\<lambda>c. c = d) (rev s))"

definition starts_with :: "rstr \<Rightarrow> rstr \<Rightarrow> bool" where
  "starts_with p s = (take (length p) s = p)"

definition strip_prefix :: "rstr \<Rightarrow> rstr \<Rightarrow> rstr option" where
  "strip_prefix p s = (if starts_with p s then Some (drop (length p) s) else None)"

text \<open>\<open>str::trim_start_matches\<close> with a non-empty pattern: the prefix goes as often as it occurs.\<close>

function trim_start_str :: "rstr \<Rightarrow> rstr \<Rightarrow> rstr" where
  "trim_start_str p s =
     (if p \<noteq> [] \<and> s \<noteq> [] \<and> starts_with p s then trim_start_str p (drop (length p) s) else s)"
  by pat_completeness auto
termination
  by (relation "measure (\<lambda>(p, s). length s)") auto

declare trim_start_str.simps [simp del]

fun split_char :: "rchar \<Rightarrow> rstr \<Rightarrow> rstr list" where
  "split_char d [] = [[]]"
| "split_char d (c # s) =
     (if c = d then [] # split_char d s
      else (case split_char d s of [] \<Rightarrow> [[c]] | l # ls \<Rightarrow> (c # l) # ls))"

fun join_char :: "rchar \<Rightarrow> rstr list \<Rightarrow> rstr" where
  "join_char d [] = []"
| "join_char d [l] = l"
| "join_char d (l # ls) = l @ d # join_char d ls"

fun split_ws :: "rstr \<Rightarrow> rstr list" where
  "split_ws [] = [[]]"
| "split_ws (c # s) =
     (if is_ws c then [] # split_ws s
      else (case split_ws s of [] \<Rightarrow> [[c]] | l # ls \<Rightarrow> (c # l) # ls))"

definition split_whitespace :: "rstr \<Rightarrow> rstr list" where
  "split_whitespace s = filter (\<lambda>l. l \<noteq> []) (split_ws s)"

text \<open>\<open>Iterator::nth\<close>.\<close>

definition iter_nth :: "'a list \<Rightarrow> nat \<Rightarrow> 'a option" where
  "iter_nth xs n = (if n < length xs then Some (xs ! n) else None)"

text \<open>\<open>str::lines\<close>: lines end with LF or CR LF; a last line without LF keeps a final CR.\<close>

definition strip_cr :: "rstr \<Rightarrow> rstr" where
  "strip_cr l = (if l \<noteq> [] \<and> last l = 13 then butlast l else l)"

definition str_lines :: "rstr \<Rightarrow> rstr list" where
  "str_lines s = (let ps = split_char 10 s
     in map strip_cr (butlast ps) @ (if last ps = [] then [] else [last ps]))"

fun find_char :: "rchar \<Rightarrow> rstr \<Rightarrow> nat option" where
  "find_char d [] = None"
| "find_char d (c # s) = (if c = d then Some 0 else map_option Suc (find_char d s))"

definition contains_char :: "rchar \<Rightarrow> rstr \<Rightarrow> bool" where
  "contains_char d s = (d \<in> set s)"

section \<open>Lemmas\<close>

lemma lit_simps: "lit [] = []" "lit (c # s) = of_char c # lit s"
  by (simp_all add: lit_def)

lemma find_char_bound: "find_char d s = Some i \<Longrightarrow> i < length s"
  by (induction s arbitrary: i) (auto split: if_splits)

lemma find_char_None: "find_char d s = None \<longleftrightarrow> d \<notin> set s"
  by (induction s) auto

lemma find_char_Some:
  "find_char d s = Some i \<Longrightarrow> s = take i s @ d # drop (Suc i) s \<and> d \<notin> set (take i s)"
  by (induction s arbitrary: i) (auto split: if_splits)

lemma split_char_nonempty [simp]: "split_char d s \<noteq> []"
  by (induction s) (auto split: list.splits)

lemma join_split_char: "join_char d (split_char d s) = s"
proof (induction s)
  case (Cons c s)
  show ?case
  proof (cases "split_char d s")
    case (Cons l ls)
    with Cons.IH show ?thesis by (cases ls) auto
  qed simp
qed simp

lemma split_char_no_sep: "l \<in> set (split_char d s) \<Longrightarrow> d \<notin> set l"
  by (induction s arbitrary: l) (auto split: list.splits if_splits)

lemma split_char_single: "d \<notin> set l \<Longrightarrow> split_char d l = [l]"
  by (induction l) auto

lemma split_char_append: "d \<notin> set l \<Longrightarrow> split_char d (l @ d # s) = l # split_char d s"
  by (induction l) auto

lemma split_join_char:
  "ls \<noteq> [] \<Longrightarrow> list_all (\<lambda>l. d \<notin> set l) ls \<Longrightarrow> split_char d (join_char d ls) = ls"
  by (induction d ls rule: join_char.induct) (auto simp: split_char_single split_char_append)

lemma trim_idem [simp]: "trim (trim s) = trim s"
proof -
  have hd_ok: "dropWhile P xs = xs" if "xs = [] \<or> \<not> P (hd xs)" for P and xs :: rstr
    using that by (cases xs) auto
  let ?a = "dropWhile is_ws s"
  have fst_a: "?a = [] \<or> \<not> is_ws (hd ?a)"
    using hd_dropWhile by blast
  have "trim s = [] \<or> \<not> is_ws (hd (trim s))"
  proof (cases "trim s = []")
    case False
    have "prefix (trim s) ?a"
      unfolding trim_def using suffix_dropWhile [of is_ws "rev ?a"]
      by (metis rev_rev_ident suffix_to_prefix)
    with False fst_a show ?thesis
      by (metis hd_append2 prefix_def append_is_Nil_conv)
  qed simp
  then have "dropWhile is_ws (trim s) = trim s" by (rule hd_ok)
  moreover have "dropWhile is_ws (rev (trim s)) = rev (trim s)"
    by (simp add: trim_def)
  ultimately show ?thesis by (simp add: trim_def [of "trim s"])
qed

lemma trim_end_char_id: "s = [] \<or> last s \<noteq> d \<Longrightarrow> trim_end_char d s = s"
  by (cases s rule: rev_cases) (auto simp: trim_end_char_def)

lemma char_lower_ascii [simp]: "c < 128 \<Longrightarrow> char_lower U c = [ascii_lower c]"
  by (simp add: char_lower_def)

lemma lower_from_ascii: "ascii s \<Longrightarrow> lower_from U b s = map ascii_lower s"
  by (induction s arbitrary: b) (auto simp: ascii_def)

lemma to_lowercase_ascii: "ascii s \<Longrightarrow> to_lowercase U s = map ascii_lower s"
  by (simp add: to_lowercase_def lower_from_ascii)

lemma ascii_lower_idem [simp]: "ascii_lower (ascii_lower c) = ascii_lower c"
  by (simp add: ascii_lower_def)

lemma ascii_lower_lt: "c < 128 \<Longrightarrow> ascii_lower c < 128"
  by (simp add: ascii_lower_def)

lemma ascii_to_lowercase: "ascii s \<Longrightarrow> ascii (to_lowercase U s)"
  by (simp add: to_lowercase_ascii) (auto simp: ascii_def list_all_iff ascii_lower_lt)

lemma to_lowercase_idem: "ascii s \<Longrightarrow> to_lowercase U (to_lowercase U s) = to_lowercase U s"
  using ascii_to_lowercase [of s U] by (simp add: to_lowercase_ascii)

lemma strip_prefix_append [simp]: "strip_prefix p (p @ a) = Some a"
  by (simp add: strip_prefix_def starts_with_def)

lemma strip_prefix_None: "\<nexists>a. s = p @ a \<Longrightarrow> strip_prefix p s = None"
  by (auto simp: strip_prefix_def starts_with_def) (metis append_take_drop_id)

lemma dropWhile_none: "list_all (\<lambda>c. \<not> P c) s \<Longrightarrow> dropWhile P s = s"
  by (cases s) auto

lemma trim_no_ws: "list_all (\<lambda>c. \<not> is_ws c) s \<Longrightarrow> trim s = s"
  by (simp add: trim_def dropWhile_none list_all_rev)

end
