(* ===== verification/Utf8.thy ===== *)
theory Utf8
  imports RustString
begin

text \<open>
  UTF-8 as the standard library has it: \<open>str::as_bytes\<close>, \<open>std::str::from_utf8\<close> and
  \<open>String::from_utf8_lossy\<close>. \<open>utf8_next\<close> reads one character, or finds that the bytes are
  not one: it then consumes the longest prefix that could still have started a character
  (at least one byte), which the lossy conversion replaces by U+FFFD.
\<close>

section \<open>Encoding\<close>

definition utf8_char :: "rchar \<Rightarrow> nat list" where
  "utf8_char c =
     (if c < 128 then [c]
      else if c < 2048 then [192 + c div 64, 128 + c mod 64]
      else if c < 65536 then [224 + c div 4096, 128 + c div 64 mod 64, 128 + c mod 64]
      else [240 + c div 262144, 128 + c div 4096 mod 64, 128 + c div 64 mod 64, 128 + c mod 64])"

definition as_bytes :: "rstr \<Rightarrow> u8 list" where
  "as_bytes s = map word_of_nat (concat (map utf8_char s))"

section \<open>Decoding\<close>

definition cont :: "nat \<Rightarrow> bool" where
  "cont b \<longleftrightarrow> 128 \<le> b \<and> b < 192"

definition second_ok :: "nat \<Rightarrow> nat \<Rightarrow> bool" where
  "second_ok b0 b1 \<longleftrightarrow>
     (if b0 = 224 then 160 \<le> b1 \<and> b1 < 192
      else if b0 = 237 then 128 \<le> b1 \<and> b1 < 160
      else if b0 = 240 then 144 \<le> b1 \<and> b1 < 192
      else if b0 = 244 then 128 \<le> b1 \<and> b1 < 144
      else cont b1)"

definition utf8_next :: "nat \<Rightarrow> nat list \<Rightarrow> rchar option \<times> nat list" where
  "utf8_next b0 bs =
     (if b0 < 128 then (Some b0, bs)
      else if 194 \<le> b0 \<and> b0 < 224 then
        (case bs of b1 # r1 \<Rightarrow> if cont b1 then (Some ((b0 - 192) * 64 + (b1 - 128)), r1) else (None, bs)
         | [] \<Rightarrow> (None, []))
      else if 224 \<le> b0 \<and> b0 < 240 then
        (case bs of b1 # r1 \<Rightarrow>
           if second_ok b0 b1 then
             (case r1 of b2 # r2 \<Rightarrow>
                if cont b2 then (Some (((b0 - 224) * 64 + (b1 - 128)) * 64 + (b2 - 128)), r2)
                else (None, r1)
              | [] \<Rightarrow> (None, []))
           else (None, bs)
         | [] \<Rightarrow> (None, []))
      else if 240 \<le> b0 \<and> b0 < 245 then
        (case bs of b1 # r1 \<Rightarrow>
           if second_ok b0 b1 then
             (case r1 of b2 # r2 \<Rightarrow>
                if cont b2 then
                  (case r2 of b3 # r3 \<Rightarrow>
                     if cont b3 then
                       (Some ((((b0 - 240) * 64 + (b1 - 128)) * 64 + (b2 - 128)) * 64 + (b3 - 128)), r3)
                     else (None, r2)
                   | [] \<Rightarrow> (None, []))
                else (None, r1)
              | [] \<Rightarrow> (None, []))
           else (None, bs)
         | [] \<Rightarrow> (None, []))
      else (None, bs))"

lemma utf8_next_shorter: "length (snd (utf8_next b0 bs)) \<le> length bs"
  by (auto simp: utf8_next_def split: list.splits if_splits)

lemma utf8_next_rest: "(r, rest) = utf8_next b0 bs \<Longrightarrow> length rest \<le> length bs"
  using utf8_next_shorter [of b0 bs] by (metis snd_conv)

function utf8_decode :: "nat list \<Rightarrow> rstr option" where
  "utf8_decode [] = Some []"
| "utf8_decode (b # bs) =
     (case utf8_next b bs of
        (None, _) \<Rightarrow> None
      | (Some c, rest) \<Rightarrow> map_option ((#) c) (utf8_decode rest))"
  by pat_completeness auto
termination
  by (relation "measure length") (use utf8_next_shorter in \<open>auto simp: le_imp_less_Suc dest: utf8_next_rest\<close>)

function utf8_decode_lossy :: "nat list \<Rightarrow> rstr" where
  "utf8_decode_lossy [] = []"
| "utf8_decode_lossy (b # bs) =
     (let (r, rest) = utf8_next b bs
      in (case r of None \<Rightarrow> 65533 | Some c \<Rightarrow> c) # utf8_decode_lossy rest)"
  by pat_completeness auto
termination
  by (relation "measure length") (use utf8_next_shorter in \<open>auto simp: le_imp_less_Suc dest: utf8_next_rest\<close>)

definition from_utf8 :: "u8 list \<Rightarrow> rstr option" where
  "from_utf8 bs = utf8_decode (map unat bs)"

definition from_utf8_lossy :: "u8 list \<Rightarrow> rstr" where
  "from_utf8_lossy bs = utf8_decode_lossy (map unat bs)"

section \<open>Round trip\<close>

lemma utf8_char_bound: "scalar c \<Longrightarrow> list_all (\<lambda>b. b < 256) (utf8_char c)"
  by (auto simp: utf8_char_def scalar_def)

lemma utf8_char_nonempty [simp]: "utf8_char c \<noteq> []"
  by (simp add: utf8_char_def)

lemma second_ok_3:
  assumes "scalar c" "2048 \<le> c" "c < 65536"
  shows "second_ok (224 + c div 4096) (128 + c div 64 mod 64)"
proof -
  define q r where "q = c div 4096" and "r = c div 64 mod 64"
  have e: "c div 64 = q * 64 + r"
    unfolding q_def r_def by (simp add: div_mult2_eq [of c 64 64, simplified])
  have "r < 64" "q < 16" "32 \<le> q * 64 + r" "q * 64 + r < 864 \<or> 896 \<le> q * 64 + r"
    using assms unfolding e [symmetric] by (auto simp: r_def q_def scalar_def)
  then have "second_ok (224 + q) (128 + r)"
    by (auto simp: second_ok_def cont_def)
  then show ?thesis by (simp only: q_def r_def)
qed

lemma second_ok_4:
  assumes "65536 \<le> c" "c < 1114112"
  shows "second_ok (240 + c div 262144) (128 + c div 4096 mod 64)"
proof -
  define q r where "q = c div 262144" and "r = c div 4096 mod 64"
  have e: "c div 4096 = q * 64 + r"
    unfolding q_def r_def by (simp add: div_mult2_eq [of c 4096 64, simplified])
  have "r < 64" "q < 5" "16 \<le> q * 64 + r" "q * 64 + r < 272"
    using assms unfolding e [symmetric] by (auto simp: r_def q_def)
  then have "second_ok (240 + q) (128 + r)"
    by (auto simp: second_ok_def cont_def)
  then show ?thesis by (simp only: q_def r_def)
qed

lemma utf8_next_char:
  assumes "scalar c"
  shows "utf8_next (hd (utf8_char c)) (tl (utf8_char c) @ rest) = (Some c, rest)"
proof -
  have d2: "c div 4096 = c div 64 div 64" and d3: "c div 262144 = c div 4096 div 64"
    by (simp_all add: div_mult2_eq [symmetric])
  have "c < 1114112"
    using assms by (auto simp: scalar_def)
  then consider "c < 128" | "128 \<le> c" "c < 2048" | "2048 \<le> c" "c < 65536"
    | "65536 \<le> c" "c < 1114112"
    by linarith
  then show ?thesis
  proof cases
    case 1
    then show ?thesis by (simp add: utf8_char_def utf8_next_def)
  next
    case 2
    then have "2 \<le> c div 64" "c div 64 < 32" by auto
    with 2 show ?thesis
      by (simp add: utf8_char_def utf8_next_def cont_def)
  next
    case 3
    then have "c div 4096 < 16" by auto
    moreover have "(c div 4096 * 64 + c div 64 mod 64) * 64 + c mod 64 = c"
      unfolding d2 by simp
    ultimately show ?thesis using 3 second_ok_3 [OF assms 3]
      by (simp add: utf8_char_def utf8_next_def cont_def)
  next
    case 4
    then have "c div 262144 < 5" by auto
    moreover have "((c div 262144 * 64 + c div 4096 mod 64) * 64 + c div 64 mod 64) * 64 + c mod 64 = c"
      unfolding d3 d2 by simp
    ultimately show ?thesis using 4 second_ok_4 [OF 4]
      by (simp add: utf8_char_def utf8_next_def cont_def)
  qed
qed

lemma utf8_char_hd_tl: "utf8_char c = hd (utf8_char c) # tl (utf8_char c)"
  by simp

lemma utf8_decode_encode: "list_all scalar s \<Longrightarrow> utf8_decode (concat (map utf8_char s)) = Some s"
proof (induction s)
  case (Cons c s)
  have "concat (map utf8_char (c # s)) =
      hd (utf8_char c) # (tl (utf8_char c) @ concat (map utf8_char s))" by simp
  with Cons show ?case by (simp only: utf8_decode.simps utf8_next_char list.pred_inject(2)) simp
qed simp

lemma utf8_lossy_encode: "list_all scalar s \<Longrightarrow> utf8_decode_lossy (concat (map utf8_char s)) = s"
proof (induction s)
  case (Cons c s)
  have "concat (map utf8_char (c # s)) =
      hd (utf8_char c) # (tl (utf8_char c) @ concat (map utf8_char s))" by simp
  with Cons show ?case by (simp only: utf8_decode_lossy.simps utf8_next_char list.pred_inject(2)) simp
qed simp

lemma unat_as_bytes: "list_all scalar s \<Longrightarrow> map unat (as_bytes s) = concat (map utf8_char s)"
proof -
  assume "list_all scalar s"
  then have "list_all (\<lambda>b. b < 256) (concat (map utf8_char s))"
    by (induction s) (use utf8_char_bound in auto)
  then show ?thesis
    by (auto simp: as_bytes_def list_all_iff intro!: map_idI)
qed

lemma from_utf8_as_bytes [codec]: "list_all scalar s \<Longrightarrow> from_utf8 (as_bytes s) = Some s"
  by (simp add: from_utf8_def unat_as_bytes utf8_decode_encode)

lemma from_utf8_lossy_as_bytes [codec]: "list_all scalar s \<Longrightarrow> from_utf8_lossy (as_bytes s) = s"
  by (simp add: from_utf8_lossy_def unat_as_bytes utf8_lossy_encode)

lemma as_bytes_append [simp]: "as_bytes (s @ t) = as_bytes s @ as_bytes t"
  by (simp add: as_bytes_def)

lemma as_bytes_Nil [simp]: "as_bytes [] = []"
  by (simp add: as_bytes_def)

lemma as_bytes_eq_Nil [simp]: "as_bytes s = [] \<longleftrightarrow> s = []"
  by (cases s) (auto simp: as_bytes_def)

lemma ascii_as_bytes: "ascii s \<Longrightarrow> as_bytes s = map word_of_nat s"
  by (induction s) (auto simp: as_bytes_def ascii_def utf8_char_def)

lemma ascii_scalar: "ascii s \<Longrightarrow> list_all scalar s"
  by (auto simp: ascii_def list_all_iff scalar_def)

lemma utf8_decode_scalar_ascii: "list_all (\<lambda>b. b < 128) bs \<Longrightarrow> utf8_decode bs = Some bs"
  by (induction bs) (auto simp: utf8_next_def)

end
