(* ===== verification/Question.thy ===== *)
theory Question
  imports Header Utf8
begin

unbundle bit_operations_syntax

text \<open>
  \<open>protocol/question.rs\<close>: query types and classes, the question section, and the reading and
  writing of domain names with label lengths and compression pointers.
\<close>

section \<open>Query types and classes\<close>

datatype query_type =
    QT_A | QT_NS | QT_CNAME | QT_SOA | QT_PTR | QT_MX | QT_TXT | QT_AAAA | QT_ANY
  | QT_Unknown u16

definition qtype_from_u16 :: "u16 \<Rightarrow> query_type" where
  "qtype_from_u16 v =
     (if v = 1 then QT_A else if v = 2 then QT_NS else if v = 5 then QT_CNAME
      else if v = 6 then QT_SOA else if v = 12 then QT_PTR else if v = 15 then QT_MX
      else if v = 16 then QT_TXT else if v = 28 then QT_AAAA else if v = 255 then QT_ANY
      else QT_Unknown v)"

primrec qtype_to_u16 :: "query_type \<Rightarrow> u16" where
  "qtype_to_u16 QT_A = 1"
| "qtype_to_u16 QT_NS = 2"
| "qtype_to_u16 QT_CNAME = 5"
| "qtype_to_u16 QT_SOA = 6"
| "qtype_to_u16 QT_PTR = 12"
| "qtype_to_u16 QT_MX = 15"
| "qtype_to_u16 QT_TXT = 16"
| "qtype_to_u16 QT_AAAA = 28"
| "qtype_to_u16 QT_ANY = 255"
| "qtype_to_u16 (QT_Unknown other) = other"

datatype query_class = QC_IN | QC_Unknown u16

definition qclass_from_u16 :: "u16 \<Rightarrow> query_class" where
  "qclass_from_u16 v = (if v = 1 then QC_IN else QC_Unknown v)"

primrec qclass_to_u16 :: "query_class \<Rightarrow> u16" where
  "qclass_to_u16 QC_IN = 1"
| "qclass_to_u16 (QC_Unknown other) = other"

record dns_question =
  q_name :: rstr
  q_type :: query_type
  q_class :: query_class

section \<open>Reading a domain name\<close>

definition pointer_offset :: "u8 \<Rightarrow> u8 \<Rightarrow> nat" where
  "pointer_offset len b2 = unat (push_bit 8 (ucast (len AND 0x3F) :: u64) OR ucast b2)"

definition push_label :: "unicode \<Rightarrow> rstr \<Rightarrow> rstr \<Rightarrow> rstr" where
  "push_label U domain label =
     (if domain \<noteq> [] then domain @ lit ''.'' else domain) @ to_lowercase U label"

text \<open>
  The \<open>loop\<close> of \<open>read_domain_name\<close>, with its three variables. \<open>None\<close> is a loop that does not
  end, which nothing but the laws of the buffer rules out.
\<close>

partial_function (option) read_name_loop ::
  "buf_api \<Rightarrow> unicode \<Rightarrow> rstr \<Rightarrow> nat \<Rightarrow> cursor \<Rightarrow> (dns_error, rstr \<times> cursor) outcome option" where
  "read_name_loop B U domain jumps_count c =
     (if 50 < jumps_count
      then Some (Err (InvalidDomainName ''Infinite DNS compression pointer loop detected''))
      else if \<not> has_remaining B c
      then Some (Err (BufferTooShort ''Unexpected EOF while reading domain name''))
      else (case buf_get_u8 B c of
        None \<Rightarrow> Some Panic
      | Some (len, c1) \<Rightarrow>
          (if len = 0 then Some (Ok (domain, c1))
           else if len AND 0xC0 = 0xC0 then
             (if \<not> has_remaining B c1
              then Some (Err (BufferTooShort ''Incomplete compression pointer''))
              else (case buf_get_u8 B c1 of
                None \<Rightarrow> Some Panic
              | Some (b2, c2) \<Rightarrow>
                  read_name_loop B U domain (jumps_count + 1)
                    (set_position (pointer_offset len b2) c2)))
           else if buf_remaining B c1 < unat len
           then Some (Err (BufferTooShort ''Label length exceeds buffer''))
           else (case buf_copy_to_slice B (unat len) c1 of
             None \<Rightarrow> Some Panic
           | Some (label_bytes, c2) \<Rightarrow>
               (case from_utf8 label_bytes of
                 None \<Rightarrow> Some (Err (InvalidDomainName ''Non-UTF8 domain label''))
               | Some label \<Rightarrow>
                   read_name_loop B U (push_label U domain label) jumps_count c2)))))"

definition read_domain_name ::
  "buf_api \<Rightarrow> unicode \<Rightarrow> cursor \<Rightarrow> (dns_error, rstr \<times> cursor) outcome" where
  "read_domain_name B U c =
     (case read_name_loop B U [] 0 c of None \<Rightarrow> Hang | Some r \<Rightarrow> r)"

section \<open>Writing a domain name\<close>

definition write_label :: "buf_api \<Rightarrow> rstr \<Rightarrow> u8 list \<Rightarrow> u8 list" where
  "write_label B label out =
     (let bytes = as_bytes label
      in buf_put_slice B bytes (buf_put_u8 B (word_of_nat (length bytes)) out))"

definition write_domain_name :: "buf_api \<Rightarrow> rstr \<Rightarrow> u8 list \<Rightarrow> u8 list" where
  "write_domain_name B domain out =
     (let normalized = trim_end_char (of_char CHR ''.'') domain
      in if normalized = [] then buf_put_u8 B 0 out
         else buf_put_u8 B 0 (fold (write_label B) (split_char (of_char CHR ''.'') normalized) out))"

section \<open>The question section\<close>

definition question_parse ::
  "buf_api \<Rightarrow> unicode \<Rightarrow> cursor \<Rightarrow> (dns_error, dns_question \<times> cursor) outcome" where
  "question_parse B U c =
     obind (read_domain_name B U c) (\<lambda>(name, c1).
     if buf_remaining B c1 < 4
     then Err (BufferTooShort ''DNS Question requires 4 bytes for QTYPE & QCLASS'')
     else
       or_panic (buf_get_u16 B c1) (\<lambda>(t, c2).
       or_panic (buf_get_u16 B c2) (\<lambda>(k, c3).
       Ok (\<lparr>q_name = name, q_type = qtype_from_u16 t, q_class = qclass_from_u16 k\<rparr>, c3))))"

definition question_write :: "buf_api \<Rightarrow> dns_question \<Rightarrow> u8 list \<Rightarrow> u8 list" where
  "question_write B q out =
     buf_put_u16 B (qclass_to_u16 (q_class q))
       (buf_put_u16 B (qtype_to_u16 (q_type q))
         (write_domain_name B (q_name q) out))"

section \<open>Lemmas\<close>

lemma qtype_to_from [simp]: "qtype_to_u16 (qtype_from_u16 v) = v"
  by (simp add: qtype_from_u16_def)

lemma qclass_to_from [simp]: "qclass_to_u16 (qclass_from_u16 v) = v"
  by (simp add: qclass_from_u16_def)

text \<open>The types and classes that parsing can produce: \<open>Unknown\<close> only for codes without a name.\<close>

definition canonical_type :: "query_type \<Rightarrow> bool" where
  "canonical_type t \<longleftrightarrow> qtype_from_u16 (qtype_to_u16 t) = t"

definition canonical_class :: "query_class \<Rightarrow> bool" where
  "canonical_class k \<longleftrightarrow> qclass_from_u16 (qclass_to_u16 k) = k"

lemma canonical_from [simp]:
  "canonical_type (qtype_from_u16 v)" "canonical_class (qclass_from_u16 v)"
  by (simp_all add: canonical_type_def canonical_class_def)

lemma lit_dot [simp]: "lit ''.'' = [46]"
  by (simp add: lit_def)

lemma dot_code [simp]: "(of_char CHR ''.'' :: nat) = 46"
  by simp

text \<open>The wire form of a name: each label behind its length, then a zero byte.\<close>

definition label_wire :: "rstr \<Rightarrow> u8 list" where
  "label_wire l = word_of_nat (length (as_bytes l)) # as_bytes l"

definition name_wire :: "rstr \<Rightarrow> u8 list" where
  "name_wire d =
     (let n = trim_end_char 46 d
      in if n = [] then [0] else concat (map label_wire (split_char 46 n)) @ [0])"

text \<open>
  Names that survive the trip over the wire: no empty label, no label that the length byte
  cannot carry as a label, and nothing that reading would still turn to lower case.
\<close>

definition wire_label :: "unicode \<Rightarrow> rstr \<Rightarrow> bool" where
  "wire_label U l \<longleftrightarrow>
     l \<noteq> [] \<and> list_all scalar l \<and> length (as_bytes l) < 192 \<and> to_lowercase U l = l"

definition wire_name :: "unicode \<Rightarrow> rstr \<Rightarrow> bool" where
  "wire_name U d \<longleftrightarrow> d = [] \<or> list_all (wire_label U) (split_char 46 d)"

lemma split_char_snoc: "split_char d (s @ [d]) = split_char d s @ [[]]"
  by (induction s) (auto split: list.splits)

lemma wire_name_trim: "wire_name U d \<Longrightarrow> trim_end_char 46 d = d"
proof (rule trim_end_char_id)
  assume w: "wire_name U d"
  show "d = [] \<or> last d \<noteq> 46"
  proof (rule ccontr)
    assume n: "\<not> (d = [] \<or> last d \<noteq> 46)"
    then obtain d' where "d = d' @ [46]" by (cases d rule: rev_cases) auto
    then have "[] \<in> set (split_char 46 d)" by (simp add: split_char_snoc)
    with w n show False by (auto simp: wire_name_def wire_label_def list_all_iff)
  qed
qed

lemma fold_push_label:
  "list_all (\<lambda>l. to_lowercase U l = l) ls \<Longrightarrow> d \<noteq> [] \<Longrightarrow>
    fold (\<lambda>l d. push_label U d l) ls d = d @ concat (map ((#) 46) ls)"
  by (induction ls arbitrary: d) (auto simp: push_label_def)

lemma join_char_concat: "join_char d (l # ls) = l @ concat (map ((#) d) ls)"
  by (induction ls arbitrary: l) auto

lemma fold_push_labels:
  assumes "list_all (wire_label U) ls"
  shows "fold (\<lambda>l d. push_label U d l) ls [] = join_char 46 ls"
proof (cases ls)
  case (Cons l rest)
  with assms have "list_all (\<lambda>l. to_lowercase U l = l) rest" "to_lowercase U l = l" "l \<noteq> []"
    by (auto simp: wire_label_def list_all_iff)
  then have "push_label U [] l = l" by (simp add: push_label_def)
  with Cons \<open>l \<noteq> []\<close> show ?thesis
    using fold_push_label [OF \<open>list_all _ rest\<close>, of l] by (simp add: join_char_concat)
qed simp

lemma label_not_pointer: "unat (w :: u8) < 192 \<Longrightarrow> w AND 0xC0 \<noteq> 0xC0"
proof
  assume lt: "unat w < 192" and "w AND 0xC0 = 0xC0"
  then have "0xC0 \<le> w" by (metis word_and_le2)
  then have "unat (0xC0 :: u8) \<le> unat w" by (simp only: word_le_nat_alt)
  with lt show False by simp
qed

context byte_io
begin

lemma write_label_wire: "write_label B l out = out @ label_wire l"
  by (simp add: write_label_def label_wire_def put Let_def)

lemma write_labels_wire: "fold (write_label B) ls out = out @ concat (map label_wire ls)"
  by (induction ls arbitrary: out) (auto simp: write_label_wire)

lemma write_domain_name_wire: "write_domain_name B d out = out @ name_wire d"
  by (simp add: write_domain_name_def name_wire_def put Let_def write_labels_wire)

text \<open>
  Induction along the loop: a label leaves fewer bytes, a pointer uses up one of the 51 jumps.
\<close>

lemma name_loop_induct:
  assumes "\<And>d j c. (\<And>d' c'. left_in c' < left_in c \<Longrightarrow> P d' j c') \<Longrightarrow>
      (\<And>d' c'. j \<le> 50 \<Longrightarrow> P d' (Suc j) c') \<Longrightarrow> P d j c"
  shows "P d j (c :: cursor)"
proof (induction "51 - j" arbitrary: d j c rule: less_induct)
  case (less j d c)
  note jumps = less
  show ?case
  proof (induction "left_in c" arbitrary: d c rule: less_induct)
    case (less c d)
    show ?case
      by (rule assms) (use less jumps in auto)
  qed
qed

text \<open>The body of the loop under the laws of the buffer.\<close>

lemma read_name_loop_eq:
  "read_name_loop B U d j c =
     (if 50 < j
      then Some (Err (InvalidDomainName ''Infinite DNS compression pointer loop detected''))
      else if left_in c = 0
      then Some (Err (BufferTooShort ''Unexpected EOF while reading domain name''))
      else let len = cur_data c ! cur_pos c; c1 = advance 1 c in
        if len = 0 then Some (Ok (d, c1))
        else if len AND 0xC0 = 0xC0 then
          (if left_in c1 = 0 then Some (Err (BufferTooShort ''Incomplete compression pointer''))
           else read_name_loop B U d (Suc j)
             (set_position (pointer_offset len (cur_data c ! cur_pos c1)) (advance 1 c1)))
        else if left_in c1 < unat len then Some (Err (BufferTooShort ''Label length exceeds buffer''))
        else (case from_utf8 (take (unat len) (drop (cur_pos c1) (cur_data c))) of
            None \<Rightarrow> Some (Err (InvalidDomainName ''Non-UTF8 domain label''))
          | Some label \<Rightarrow> read_name_loop B U (push_label U d label) j (advance (unat len) c1)))"
  by (rule trans [OF read_name_loop.simps]) (simp add: reads Let_def Suc_le_eq split: option.split)

lemma left_in_advance: "0 < n \<Longrightarrow> left_in c \<noteq> 0 \<Longrightarrow> left_in (advance n c) < left_in c"
  by (simp add: left_in_def)

text \<open>The loop ends, and no read in it goes past the end of the buffer.\<close>

lemma read_name_loop_returns:
  "\<exists>r. read_name_loop B U d j c = Some r \<and> r \<noteq> Panic \<and> r \<noteq> Hang"
proof (induction d j c rule: name_loop_induct)
  case (1 d j c)
  have jump: "\<exists>r. read_name_loop B U d (Suc j) c' = Some r \<and> r \<noteq> Panic \<and> r \<noteq> Hang"
    if "\<not> 50 < j" for c'
    using that by (intro 1(2)) simp
  have label: "\<exists>r. read_name_loop B U d' j (advance (Suc n) c) = Some r \<and> r \<noteq> Panic \<and> r \<noteq> Hang"
    if "0 < left_in c" for d' n
    using that by (intro 1(1) left_in_advance) simp_all
  show ?case
    by (subst read_name_loop_eq)
      (auto simp: Let_def jump label split: option.split)
qed

lemma read_name_loop_data:
  "read_name_loop B U d j c = Some (Ok (n, c')) \<Longrightarrow> cur_data c' = cur_data c"
proof (induction d j c rule: name_loop_induct)
  case (1 d j c)
  have jump: "cur_data c' = cur_data c"
    if "\<not> 50 < j" "read_name_loop B U d (Suc j) (set_position p (advance m c)) = Some (Ok (n, c'))" for p m
    using 1(2) [OF _ that(2)] that(1) by simp
  have label: "cur_data c' = cur_data c"
    if "0 < left_in c" "read_name_loop B U d' j (advance (Suc m) c) = Some (Ok (n, c'))" for d' m
    using 1(1) [OF left_in_advance that(2)] that(1) by simp
  show ?case
    using 1(3) by (subst (asm) read_name_loop_eq)
      (auto simp: Let_def split: if_splits option.splits dest: jump label)
qed

lemma read_domain_name_total:
  "read_domain_name B U c \<noteq> Hang" "read_domain_name B U c \<noteq> Panic"
  using read_name_loop_returns [of U "[]" 0 c] by (auto simp: read_domain_name_def)

lemma read_domain_name_data:
  "read_domain_name B U c = Ok (n, c') \<Longrightarrow> cur_data c' = cur_data c"
  using read_name_loop_data by (auto simp: read_domain_name_def split: option.splits)

text \<open>Reading back a written name.\<close>

lemma read_label:
  assumes "wire_label U l" "j \<le> 50"
  shows "read_name_loop B U d j (between pre (label_wire l @ post)) =
    read_name_loop B U (push_label U d l) j (between (pre @ label_wire l) post)"
proof -
  let ?n = "length (as_bytes l)"
  have n: "0 < ?n" "?n < 192" and u: "from_utf8 (as_bytes l) = Some l"
    using assms by (auto simp: wire_label_def from_utf8_as_bytes)
  have w: "unat (word_of_nat ?n :: u8) = ?n" using n by simp
  then have nz: "(word_of_nat ?n :: u8) \<noteq> 0" using n by (metis less_numeral_extra(3) unat_0)
  have np: "(word_of_nat ?n :: u8) AND 0xC0 \<noteq> 0xC0"
    using n w by (intro label_not_pointer) simp
  have adv: "advance (Suc ?n) (between pre (word_of_nat ?n # as_bytes l @ post)) =
      between (pre @ (word_of_nat ?n # as_bytes l)) post"
    using advance_between [of "label_wire l" pre post] by (simp add: label_wire_def)
  show ?thesis using assms(2) nz np w u
    by (subst read_name_loop_eq)
      (simp add: Let_def label_wire_def left_in_def nth_append adv)
qed

lemma read_labels:
  "list_all (wire_label U) ls \<Longrightarrow> j \<le> 50 \<Longrightarrow>
    read_name_loop B U d j (between pre (concat (map label_wire ls) @ 0 # post)) =
    Some (Ok (fold (\<lambda>l d. push_label U d l) ls d,
      between (pre @ concat (map label_wire ls) @ [0]) post))"
proof (induction ls arbitrary: d pre)
  case Nil
  have "advance 1 (between pre (0 # post)) = between (pre @ [0]) post"
    using advance_between [of "[0]" pre post] by simp
  with Nil show ?case by (subst read_name_loop_eq) (simp add: Let_def)
next
  case (Cons l ls)
  then show ?case by (simp add: read_label)
qed

lemma read_write_name [codec]:
  assumes "wire_name U d"
  shows "read_domain_name B U (between pre (name_wire d @ post)) =
    Ok (d, between (pre @ name_wire d) post)"
proof (cases "d = []")
  case True
  then have "name_wire d = [0]" by (simp add: name_wire_def trim_end_char_def)
  with True read_labels [of U "[]" 0 "[]" pre post] show ?thesis
    by (simp add: read_domain_name_def)
next
  case False
  with assms have ls: "list_all (wire_label U) (split_char 46 d)" by (simp add: wire_name_def)
  with False have "name_wire d = concat (map label_wire (split_char 46 d)) @ [0]"
    by (simp add: name_wire_def wire_name_trim [OF assms])
  with read_labels [OF ls, of 0 "[]" pre post] show ?thesis
    by (simp add: read_domain_name_def fold_push_labels [OF ls] join_split_char)
qed

end

section \<open>Compressed names\<close>

text \<open>A compression pointer to an offset, as RFC 1035 writes it.\<close>

definition pointer_wire :: "nat \<Rightarrow> u8 list" where
  "pointer_wire off = [word_of_nat (192 + off div 256), word_of_nat (off mod 256)]"

lemma pointer_byte:
  assumes "h < 64"
  shows "(word_of_nat (192 + h) :: u8) AND 0xC0 = 0xC0" "(word_of_nat (192 + h) :: u8) AND 0x3F = word_of_nat h"
    "(word_of_nat (192 + h) :: u8) \<noteq> 0"
proof -
  let ?x = "word_of_nat (192 + h) :: u8"
  have x: "unat ?x = 192 + h" using assms by (simp add: unsigned_of_nat take_bit_eq_mod del: of_nat_add)
  have "unat (drop_bit 6 ?x) = unat (3 :: u8)"
    using assms by (subst unat_drop_bit_eq) (simp add: x drop_bit_eq_div del: of_nat_add)
  then have d: "drop_bit 6 ?x = 3" by (simp only: word_unat_eq_iff)
  have c: "0xC0 = push_bit 6 (3 :: u8)" by (simp add: push_bit_eq_mult)
  have "0xC0 AND take_bit 6 ?x = 0"
    unfolding c by (rule bit_word_eqI) (auto simp: bit_simps simp del: push_bit_numeral of_nat_add)
  with disjunctive_add_eq_or [OF this] bits_ident [of 6 ?x]
  have or: "0xC0 OR take_bit 6 ?x = ?x" by (simp add: d push_bit_eq_mult del: of_nat_add)
  have "(0xC0 OR take_bit 6 ?x) AND 0xC0 = 0xC0"
    by (rule bit_word_eqI) (auto simp: bit_simps)
  then show "?x AND 0xC0 = 0xC0" unfolding or .
  have "(h + 3 * 64) mod 64 = h" using assms by (simp only: mod_mult_self1 mod_less)
  then have "(192 + h) mod 64 = h" by (simp add: add.commute)
  then have "unat (take_bit 6 ?x) = unat (word_of_nat h :: u8)"
    using assms by (subst unsigned_take_bit_eq) (simp add: x take_bit_eq_mod unsigned_of_nat del: of_nat_add)
  moreover have "?x AND 0x3F = take_bit 6 ?x" by (simp add: take_bit_eq_mask mask_eq_exp_minus_1 del: of_nat_add)
  ultimately show "?x AND 0x3F = word_of_nat h" by (simp only: word_unat_eq_iff)
  show "?x \<noteq> 0" using x by (metis add_is_0 unat_0 zero_neq_numeral)
qed

lemma pointer_offset_bytes:
  assumes "off < 16384"
  shows "pointer_offset (word_of_nat (192 + off div 256)) (word_of_nat (off mod 256)) = off"
proof -
  have h: "off div 256 < 64" using assms by linarith
  let ?h = "word_of_nat (off div 256) :: u8" and ?l = "word_of_nat (off mod 256) :: u8"
  have u: "unat (ucast ?h :: u64) = off div 256" "unat (ucast ?l :: u64) = off mod 256"
    using h by (simp_all add: unsigned_ucast_eq unsigned_of_nat take_bit_eq_mod)
  have "(push_bit 8 (ucast ?h) :: u64) AND ucast ?l = 0"
    by (rule bit_word_eqI) (auto simp: bit_simps)
  then have "(push_bit 8 (ucast ?h) :: u64) OR ucast ?l = push_bit 8 (ucast ?h) + ucast ?l"
    by (rule disjunctive_add_eq_or [symmetric])
  moreover have "unat ((push_bit 8 (ucast ?h) :: u64) + ucast ?l) = off"
    using assms u by (simp add: unat_word_ariths push_bit_eq_mult)
  ultimately show ?thesis by (simp add: pointer_offset_def pointer_byte [OF h] del: of_nat_add)
qed

context byte_io
begin

lemma read_labels_on:
  "list_all (wire_label U) ls \<Longrightarrow> j \<le> 50 \<Longrightarrow>
    read_name_loop B U d j (between pre (concat (map label_wire ls) @ post)) =
    read_name_loop B U (fold (\<lambda>l d. push_label U d l) ls d) j
      (between (pre @ concat (map label_wire ls)) post)"
proof (induction ls arbitrary: d pre)
  case (Cons l ls)
  then show ?case by (simp add: read_label)
qed simp

lemma read_jump:
  assumes "a \<noteq> 0" "a AND 0xC0 = 0xC0" "j \<le> 50"
  shows "read_name_loop B U d j (between pre (a # b # post)) =
    read_name_loop B U d (Suc j) (set_position (pointer_offset a b) (between pre (a # b # post)))"
proof -
  have adv: "advance 1 (between pre (a # b # post)) = between (pre @ [a]) (b # post)"
    using advance_between [of "[a]" pre] by simp
  have at: "cur_data (between pre (a # b # post)) ! cur_pos (between pre (a # b # post)) = a"
    "cur_data (between pre (a # b # post)) ! cur_pos (between (pre @ [a]) (b # post)) = b"
    by (simp_all add: between_def nth_append)
  have pos: "set_position n (advance 1 (between (pre @ [a]) (b # post))) = set_position n (between pre (a # b # post))" for n
    by (simp add: set_position_def advance_def between_def)
  show ?thesis using assms
    by (subst read_name_loop_eq) (simp only: Let_def adv at pos left_in_between, simp)
qed

lemma read_pointer:
  assumes "off < 16384" "j \<le> 50"
  shows "read_name_loop B U d j (between pre (pointer_wire off @ post)) =
    read_name_loop B U d (Suc j) (set_position off (between pre (pointer_wire off @ post)))"
proof -
  have h: "off div 256 < 64" using assms(1) by linarith
  show ?thesis
    using read_jump [OF pointer_byte(3,1) [OF h] assms(2)] pointer_offset_bytes [OF assms(1)]
    by (simp add: pointer_wire_def del: of_nat_add)
qed

lemma read_compressed:
  assumes "wire_name U t" "t \<noteq> []" "list_all (wire_label U) ls" "length pre < 16384"
  shows "read_domain_name B U
      (between (pre @ name_wire t @ mid) (concat (map label_wire ls) @ pointer_wire (length pre) @ post)) =
    Ok (join_char 46 (ls @ split_char 46 t),
      between (pre @ name_wire t) (mid @ concat (map label_wire ls) @ pointer_wire (length pre) @ post))"
proof -
  let ?ls = "concat (map label_wire ls)"
  have t: "list_all (wire_label U) (split_char 46 t)" using assms(1,2) by (simp add: wire_name_def)
  have tw: "name_wire t = concat (map label_wire (split_char 46 t)) @ [0]"
    using assms(1,2) by (simp add: name_wire_def wire_name_trim)
  have jump: "set_position (length pre)
      (between (pre @ name_wire t @ mid @ ?ls) (pointer_wire (length pre) @ post)) =
    between pre (concat (map label_wire (split_char 46 t)) @ 0 # mid @ ?ls @ pointer_wire (length pre) @ post)"
    by (simp add: set_position_def between_def tw)
  have "read_name_loop B U [] 0
      (between (pre @ name_wire t @ mid) (?ls @ pointer_wire (length pre) @ post)) =
    read_name_loop B U (join_char 46 ls) 0
      (between (pre @ name_wire t @ mid @ ?ls) (pointer_wire (length pre) @ post))"
    using read_labels_on [OF assms(3), of 0 "[]" "pre @ name_wire t @ mid" "pointer_wire (length pre) @ post"]
    by (simp add: fold_push_labels [OF assms(3)])
  also have "\<dots> = read_name_loop B U (join_char 46 ls) (Suc 0) (between pre
      (concat (map label_wire (split_char 46 t)) @ 0 # mid @ ?ls @ pointer_wire (length pre) @ post))"
    unfolding jump [symmetric] by (rule read_pointer [OF assms(4)]) simp
  also have "\<dots> = Some (Ok (join_char 46 (ls @ split_char 46 t),
      between (pre @ name_wire t) (mid @ ?ls @ pointer_wire (length pre) @ post)))"
    using fold_push_labels [of U "ls @ split_char 46 t"] fold_push_labels [OF assms(3)] assms(3) t
    by (simp add: read_labels [OF t] tw)
  finally show ?thesis by (simp add: read_domain_name_def)
qed

end

section \<open>Properties\<close>

text \<open>C7: reading a domain name always returns, with a name or with an error: the loop of
  \<open>read_domain_name\<close> ends on every buffer, compression pointers that chase each other included,
  and no read in it goes past the end of the buffer.\<close>

theorem read_name_total:
  assumes "byte_io B"
  shows "\<exists>r. read_name_loop B U [] 0 c = Some r \<and> read_domain_name B U c = r \<and> r \<noteq> Panic \<and> r \<noteq> Hang"
  using byte_io.read_name_loop_returns [OF assms, of U "[]" 0 c]
  by (auto simp: read_domain_name_def)

text \<open>A pointer to itself: the loop of the code gives up after 51 jumps.\<close>

theorem read_name_total_witness:
  "\<forall>U. \<exists>r. read_name_loop slice_api U [] 0 (new_cursor [0xC0, 0]) = Some r \<and> r \<noteq> Panic \<and> r \<noteq> Hang"
  using read_name_total [OF slice.byte_io_axioms] by blast

text \<open>C18: a domain name that is written is read back as it was, and the cursor stands right behind
  it. The names are those of labels of 1 to 191 bytes that are in lower case.\<close>

theorem name_roundtrip:
  assumes "byte_io B" "wire_name U d"
  shows "read_domain_name B U (new_cursor (write_domain_name B d [] @ rest)) =
    Ok (d, set_position (length (write_domain_name B d [])) (new_cursor (write_domain_name B d [] @ rest)))"
  using byte_io.read_write_name [OF assms, of "[]" rest]
  by (simp add: new_cursor_between set_position_def between_def byte_io.write_domain_name_wire [OF assms(1)])

theorem name_roundtrip_witness:
  "\<forall>U. wire_name U (lit ''ads.example'')
     \<and> read_domain_name slice_api U (new_cursor (write_domain_name slice_api (lit ''ads.example'') [] @ [9])) =
       Ok (lit ''ads.example'', set_position 13 (new_cursor (write_domain_name slice_api (lit ''ads.example'') [] @ [9])))"
proof
  fix U
  have w: "wire_name U (lit ''ads.example'')"
    by (simp add: wire_name_def wire_label_def lit_simps scalar_def as_bytes_def utf8_char_def
        to_lowercase_def char_lower_def ascii_lower_def)
  have "length (write_domain_name slice_api (lit ''ads.example'') []) = 13"
    by (simp add: slice.write_domain_name_wire name_wire_def trim_end_char_def lit_simps
        label_wire_def as_bytes_def utf8_char_def)
  with w name_roundtrip [OF slice.byte_io_axioms w, of "[9]"]
  show "wire_name U (lit ''ads.example'')
     \<and> read_domain_name slice_api U (new_cursor (write_domain_name slice_api (lit ''ads.example'') [] @ [9])) =
       Ok (lit ''ads.example'', set_position 13 (new_cursor (write_domain_name slice_api (lit ''ads.example'') [] @ [9])))"
    by simp
qed

text \<open>C19: a compressed name is read as the name it stands for: some labels and a pointer to a name
  written before give the labels followed by that name. But the cursor then stands behind the
  name pointed to, not behind the pointer, so that whatever follows is read from the wrong place.\<close>

theorem compressed_name_read:
  assumes "byte_io B" "wire_name U t" "t \<noteq> []" "list_all (wire_label U) ls" "length pre < 16384"
    and "data = pre @ write_domain_name B t [] @ mid @ concat (map label_wire ls) @ pointer_wire (length pre) @ post"
  shows "read_domain_name B U
      (set_position (length (pre @ write_domain_name B t [] @ mid)) (new_cursor data)) =
    Ok (join_char 46 (ls @ split_char 46 t),
      set_position (length (pre @ write_domain_name B t [])) (new_cursor data))"
  using byte_io.read_compressed [OF assms(1-5), of mid post]
  by (simp add: new_cursor_between set_position_def between_def assms(6)
      byte_io.write_domain_name_wire [OF assms(1)])

text \<open>\<open>ads.example\<close> and, compressed, \<open>x.ads.example\<close>, with two bytes of record data.\<close>

theorem compressed_name_read_witness:
  "\<forall>U. \<exists>c. read_domain_name slice_api U (set_position 13 (new_cursor
      (write_domain_name slice_api (lit ''ads.example'') [] @ [1, 120, 192, 0, 7, 8]))) =
    Ok (lit ''x.ads.example'', c) \<and> cur_pos c = 13"
proof
  fix U
  have w: "wire_name U (lit ''ads.example'')" "list_all (wire_label U) [lit ''x'']"
    by (simp_all add: wire_name_def wire_label_def lit_simps scalar_def as_bytes_def utf8_char_def
        to_lowercase_def char_lower_def ascii_lower_def)
  have n: "lit ''ads.example'' \<noteq> []" by (simp add: lit_simps)
  have l: "length (write_domain_name slice_api (lit ''ads.example'') []) = 13"
    by (simp add: slice.write_domain_name_wire name_wire_def trim_end_char_def lit_simps
        label_wire_def as_bytes_def utf8_char_def)
  have j: "join_char 46 (lit ''x'' # split_char 46 (lit ''ads.example'')) = lit ''x.ads.example''"
    by (simp add: lit_simps)
  have d: "label_wire (lit ''x'') @ pointer_wire 0 @ [7, 8] = [1, 120, 192, 0, 7, 8]"
    by (simp add: label_wire_def pointer_wire_def as_bytes_def utf8_char_def lit_simps)
  from compressed_name_read [OF slice.byte_io_axioms w(1) n w(2), of "[]" _ "[]" "[7, 8]", OF _ refl]
  have "read_domain_name slice_api U (set_position 13 (new_cursor
      (write_domain_name slice_api (lit ''ads.example'') [] @ [1, 120, 192, 0, 7, 8]))) =
    Ok (lit ''x.ads.example'', set_position 13 (new_cursor
      (write_domain_name slice_api (lit ''ads.example'') [] @ [1, 120, 192, 0, 7, 8])))"
    using l by (simp add: j d)
  then show "\<exists>c. read_domain_name slice_api U (set_position 13 (new_cursor
      (write_domain_name slice_api (lit ''ads.example'') [] @ [1, 120, 192, 0, 7, 8]))) =
    Ok (lit ''x.ads.example'', c) \<and> cur_pos c = 13"
    by (simp add: set_position_def)
qed

end
