(* ===== verification/ResourceRecord.thy ===== *)
theory ResourceRecord
  imports Question
begin

text \<open>
  \<open>protocol/rr.rs\<close>: resource records, their data by type, and their wire form.
\<close>

section \<open>Data\<close>

text \<open>\<open>std::net::Ipv4Addr\<close> by its four octets, \<open>Ipv6Addr\<close> by its sixteen.\<close>

datatype ipv4_addr = Ipv4 u8 u8 u8 u8

datatype ipv6_addr = Ipv6 (v6_octets: "u8 list")

definition ipv4_from :: "u8 list \<Rightarrow> ipv4_addr" where
  "ipv4_from o4 = Ipv4 (o4 ! 0) (o4 ! 1) (o4 ! 2) (o4 ! 3)"

primrec ipv4_octets :: "ipv4_addr \<Rightarrow> u8 list" where
  "ipv4_octets (Ipv4 a b c d) = [a, b, c, d]"

datatype resource_data =
    RD_A ipv4_addr
  | RD_AAAA ipv6_addr
  | RD_CNAME rstr
  | RD_MX (preference: u16) (exchange: rstr)
  | RD_TXT "rstr list"
  | RD_Raw "u8 list"

record resource_record =
  rr_name :: rstr
  rr_type :: query_type
  rr_class :: query_class
  rr_ttl :: u32
  rr_data :: resource_data

section \<open>Reading\<close>

text \<open>The \<open>while read < rdlength\<close> loop of TXT data.\<close>

function txt_loop ::
  "buf_api \<Rightarrow> nat \<Rightarrow> nat \<Rightarrow> rstr list \<Rightarrow> cursor \<Rightarrow> (dns_error, rstr list \<times> cursor) outcome" where
  "txt_loop B rdlength nread txts c =
     (if nread < rdlength then
        or_panic (buf_get_u8 B c) (\<lambda>(b, c1).
        let len = unat b in
        or_panic (buf_copy_to_slice B len c1) (\<lambda>(txt_buf, c2).
        txt_loop B rdlength (nread + (1 + len)) (txts @ [from_utf8_lossy txt_buf]) c2))
      else Ok (txts, c))"
  by pat_completeness auto
termination
  by (relation "measure (\<lambda>(B, rdlength, nread, txts, c). rdlength - nread)") auto

declare txt_loop.simps [simp del]

definition rdata_parse ::
  "buf_api \<Rightarrow> unicode \<Rightarrow> query_type \<Rightarrow> nat \<Rightarrow> cursor \<Rightarrow> (dns_error, resource_data \<times> cursor) outcome" where
  "rdata_parse B U rtype rdlength c =
     (if rtype = QT_A \<and> rdlength = 4 then
        or_panic (buf_copy_to_slice B 4 c) (\<lambda>(octets, c1). Ok (RD_A (ipv4_from octets), c1))
      else if rtype = QT_AAAA \<and> rdlength = 16 then
        or_panic (buf_copy_to_slice B 16 c) (\<lambda>(octets, c1). Ok (RD_AAAA (Ipv6 octets), c1))
      else if rtype = QT_CNAME then
        obind (read_domain_name B U c) (\<lambda>(cname, c1). Ok (RD_CNAME cname, c1))
      else if rtype = QT_MX \<and> 3 \<le> rdlength then
        or_panic (buf_get_u16 B c) (\<lambda>(pref, c1).
        obind (read_domain_name B U c1) (\<lambda>(exch, c2). Ok (RD_MX pref exch, c2)))
      else if rtype = QT_TXT then
        obind (txt_loop B rdlength 0 [] c) (\<lambda>(txts, c1). Ok (RD_TXT txts, c1))
      else
        or_panic (buf_copy_to_slice B rdlength c) (\<lambda>(raw, c1). Ok (RD_Raw raw, c1)))"

definition record_parse ::
  "buf_api \<Rightarrow> unicode \<Rightarrow> cursor \<Rightarrow> (dns_error, resource_record \<times> cursor) outcome" where
  "record_parse B U c =
     obind (read_domain_name B U c) (\<lambda>(name, c1).
     if buf_remaining B c1 < 10
     then Err (BufferTooShort ''ResourceRecord header requires 10 bytes'')
     else
       or_panic (buf_get_u16 B c1) (\<lambda>(t, c2).
       or_panic (buf_get_u16 B c2) (\<lambda>(k, c3).
       or_panic (buf_get_u32 B c3) (\<lambda>(ttl, c4).
       or_panic (buf_get_u16 B c4) (\<lambda>(rdl, c5).
       let rtype = qtype_from_u16 t; rclass = qclass_from_u16 k; rdlength = unat rdl in
       if buf_remaining B c5 < rdlength
       then Err (BufferTooShort ''RDATA length exceeds remaining buffer'')
       else
         obind (rdata_parse B U rtype rdlength c5) (\<lambda>(rdata, c6).
         Ok (\<lparr>rr_name = name, rr_type = rtype, rr_class = rclass, rr_ttl = ttl,
              rr_data = rdata\<rparr>, c6)))))))"

section \<open>Writing\<close>

definition write_txt :: "buf_api \<Rightarrow> rstr \<Rightarrow> u8 list \<Rightarrow> u8 list" where
  "write_txt B txt temp =
     (let bytes = as_bytes txt
      in buf_put_slice B bytes (buf_put_u8 B (word_of_nat (length bytes)) temp))"

definition put_sized :: "buf_api \<Rightarrow> u8 list \<Rightarrow> u8 list \<Rightarrow> u8 list" where
  "put_sized B temp out = buf_put_slice B temp (buf_put_u16 B (word_of_nat (length temp)) out)"

fun rdata_write :: "buf_api \<Rightarrow> resource_data \<Rightarrow> u8 list \<Rightarrow> u8 list" where
  "rdata_write B (RD_A ip) out = buf_put_slice B (ipv4_octets ip) (buf_put_u16 B 4 out)"
| "rdata_write B (RD_AAAA ip) out = buf_put_slice B (v6_octets ip) (buf_put_u16 B 16 out)"
| "rdata_write B (RD_CNAME cname) out = put_sized B (write_domain_name B cname []) out"
| "rdata_write B (RD_MX pref exch) out =
     put_sized B (write_domain_name B exch (buf_put_u16 B pref [])) out"
| "rdata_write B (RD_TXT txts) out = put_sized B (fold (write_txt B) txts []) out"
| "rdata_write B (RD_Raw raw) out = put_sized B raw out"

definition record_write :: "buf_api \<Rightarrow> resource_record \<Rightarrow> u8 list \<Rightarrow> u8 list" where
  "record_write B r out =
     rdata_write B (rr_data r)
       (buf_put_u32 B (rr_ttl r)
         (buf_put_u16 B (qclass_to_u16 (rr_class r))
           (buf_put_u16 B (qtype_to_u16 (rr_type r))
             (write_domain_name B (rr_name r) out))))"

section \<open>The wire form\<close>

primrec rdata_wire :: "resource_data \<Rightarrow> u8 list" where
  "rdata_wire (RD_A ip) = ipv4_octets ip"
| "rdata_wire (RD_AAAA ip) = v6_octets ip"
| "rdata_wire (RD_CNAME n) = name_wire n"
| "rdata_wire (RD_MX p n) = bytes16 p @ name_wire n"
| "rdata_wire (RD_TXT ts) = concat (map label_wire ts)"
| "rdata_wire (RD_Raw raw) = raw"

definition record_wire :: "resource_record \<Rightarrow> u8 list" where
  "record_wire r = name_wire (rr_name r) @ bytes16 (qtype_to_u16 (rr_type r))
     @ bytes16 (qclass_to_u16 (rr_class r)) @ bytes32 (rr_ttl r)
     @ bytes16 (word_of_nat (length (rdata_wire (rr_data r)))) @ rdata_wire (rr_data r)"

definition question_wire :: "dns_question \<Rightarrow> u8 list" where
  "question_wire q = name_wire (q_name q) @ bytes16 (qtype_to_u16 (q_type q))
     @ bytes16 (qclass_to_u16 (q_class q))"

text \<open>
  Data that fits its type and its length fields. Raw data is data of a type (or of a length
  for its type) that reading does not interpret.
\<close>

definition wire_txt :: "rstr \<Rightarrow> bool" where
  "wire_txt t \<longleftrightarrow> list_all scalar t \<and> length (as_bytes t) < 256"

fun wire_rdata :: "unicode \<Rightarrow> query_type \<Rightarrow> resource_data \<Rightarrow> bool" where
  "wire_rdata U t (RD_A ip) = (t = QT_A)"
| "wire_rdata U t (RD_AAAA ip) = (t = QT_AAAA \<and> length (v6_octets ip) = 16)"
| "wire_rdata U t (RD_CNAME n) = (t = QT_CNAME \<and> wire_name U n)"
| "wire_rdata U t (RD_MX p n) = (t = QT_MX \<and> wire_name U n)"
| "wire_rdata U t (RD_TXT ts) = (t = QT_TXT \<and> list_all wire_txt ts)"
| "wire_rdata U t (RD_Raw raw) =
     (t \<noteq> QT_CNAME \<and> t \<noteq> QT_TXT \<and> \<not> (t = QT_A \<and> length raw = 4)
      \<and> \<not> (t = QT_AAAA \<and> length raw = 16) \<and> \<not> (t = QT_MX \<and> 3 \<le> length raw))"

definition wire_record :: "unicode \<Rightarrow> resource_record \<Rightarrow> bool" where
  "wire_record U r \<longleftrightarrow> wire_name U (rr_name r) \<and> canonical_type (rr_type r)
     \<and> canonical_class (rr_class r) \<and> wire_rdata U (rr_type r) (rr_data r)
     \<and> length (rdata_wire (rr_data r)) < 65536"

definition wire_question :: "unicode \<Rightarrow> dns_question \<Rightarrow> bool" where
  "wire_question U q \<longleftrightarrow> wire_name U (q_name q) \<and> canonical_type (q_type q)
     \<and> canonical_class (q_class q)"

section \<open>Lemmas\<close>

lemma name_wire_nonempty [simp]: "name_wire n \<noteq> []"
  by (simp add: name_wire_def Let_def)

lemma ipv4_from_octets [codec]: "ipv4_from (ipv4_octets ip) = ip"
  by (cases ip) (simp add: ipv4_from_def)

lemma length_ipv4_octets [simp]: "length (ipv4_octets ip) = 4"
  by (cases ip) simp

lemma length_label_wire [simp]: "length (label_wire l) = Suc (length (as_bytes l))"
  by (simp add: label_wire_def)

context byte_io
begin

lemma write_txt_wire: "fold (write_txt B) ts out = out @ concat (map label_wire ts)"
  by (induction ts arbitrary: out) (auto simp: write_txt_def label_wire_def put Let_def)

lemma rdata_write_wire:
  "wire_rdata U t d \<Longrightarrow>
    rdata_write B d out = out @ bytes16 (word_of_nat (length (rdata_wire d))) @ rdata_wire d"
  by (cases d) (auto simp: put put_sized_def write_domain_name_wire write_txt_wire)

lemma record_write_wire: "wire_record U r \<Longrightarrow> record_write B r out = out @ record_wire r"
  using rdata_write_wire [of U "rr_type r" "rr_data r"]
  by (simp add: record_write_def record_wire_def wire_record_def put write_domain_name_wire)

lemma question_write_wire: "question_write B q out = out @ question_wire q"
  by (simp add: question_write_def question_wire_def put write_domain_name_wire)

lemma question_parse_wire [codec]:
  assumes "wire_question U q"
  shows "question_parse B U (between pre (question_wire q @ post)) =
    Ok (q, between (pre @ question_wire q) post)"
  using assms
  by (simp add: question_parse_def question_wire_def wire_question_def canonical_type_def
      canonical_class_def read_write_name remaining get_u16_between)

lemma txt_loop_step:
  assumes "wire_txt t" "nread < rdlength"
  shows "txt_loop B rdlength nread acc (between pre (label_wire t @ post)) =
    txt_loop B rdlength (nread + length (label_wire t)) (acc @ [t]) (between (pre @ label_wire t) post)"
proof -
  let ?n = "length (as_bytes t)"
  have n: "?n mod 256 = ?n" and "list_all scalar t"
    using assms(1) by (auto simp: wire_txt_def)
  with assms(2) show ?thesis
    by (subst txt_loop.simps)
      (simp add: label_wire_def get_u8_between copy_between from_utf8_lossy_as_bytes Let_def)
qed

lemma txt_loop_wire:
  "list_all wire_txt ts \<Longrightarrow> rdlength = nread + length (concat (map label_wire ts)) \<Longrightarrow>
    txt_loop B rdlength nread acc (between pre (concat (map label_wire ts) @ post)) =
    Ok (acc @ ts, between (pre @ concat (map label_wire ts)) post)"
proof (induction ts arbitrary: nread acc pre)
  case Nil
  then show ?case by (subst txt_loop.simps) simp
next
  case (Cons t ts)
  then have "nread < rdlength" and "wire_txt t" by simp_all
  then show ?case
    using Cons.IH [of "nread + length (label_wire t)" "acc @ [t]" "pre @ label_wire t"] Cons.prems
    by (simp add: txt_loop_step)
qed

lemma rdata_parse_wire [codec]:
  assumes "wire_rdata U t d" "length (rdata_wire d) = n"
  shows "rdata_parse B U t n (between pre (rdata_wire d @ post)) =
    Ok (d, between (pre @ rdata_wire d) post)"
proof (cases d)
  case (RD_MX p m)
  have "0 < length (name_wire m)" by simp
  then have "3 \<le> n" using assms(2) RD_MX by (simp del: length_greater_0_conv)
  with assms RD_MX show ?thesis
    by (simp add: rdata_parse_def get_u16_between read_write_name)
next
  case (RD_AAAA ip)
  with assms show ?thesis by (cases ip) (simp add: rdata_parse_def copy_between)
qed (use assms in \<open>auto simp: rdata_parse_def copy_between read_write_name txt_loop_wire
    ipv4_from_octets\<close>)

lemma record_parse_wire [codec]:
  assumes "wire_record U r"
  shows "record_parse B U (between pre (record_wire r @ post)) =
    Ok (r, between (pre @ record_wire r) post)"
proof -
  have n: "length (rdata_wire (rr_data r)) mod 65536 = length (rdata_wire (rr_data r))"
    using assms by (simp add: wire_record_def)
  show ?thesis using assms
    by (simp add: record_parse_def record_wire_def wire_record_def canonical_type_def
        canonical_class_def read_write_name remaining get_u16_between get_u32_between n
        rdata_parse_wire Let_def)
qed

end

end
