(* ===== verification/Packet.thy ===== *)
theory Packet
  imports ResourceRecord
begin

text \<open>
  \<open>protocol/mod.rs\<close>: whole DNS messages. The four sections are lists read and written one item
  after the other; the locale \<open>item_codec\<close> is what an item must satisfy for a section of them
  to survive the trip over the wire.
\<close>

section \<open>Sections of a message\<close>

locale item_codec =
  fixes enc :: "'a \<Rightarrow> u8 list"
    and parse :: "cursor \<Rightarrow> (dns_error, 'a \<times> cursor) outcome"
    and ok :: "'a \<Rightarrow> bool"
  assumes parse_enc:
    "ok x \<Longrightarrow> parse (between pre (enc x @ post)) = Ok (x, between (pre @ enc x) post)"
begin

lemma parse_section:
  "list_all ok xs \<Longrightarrow> length xs = n \<Longrightarrow>
    repeat_n parse n (between pre (concat (map enc xs) @ post)) =
    Ok (xs, between (pre @ concat (map enc xs)) post)"
proof (induction xs arbitrary: n pre)
  case (Cons x xs)
  then obtain m where "n = Suc m" "length xs = m" by (cases n) auto
  with Cons show ?case by (simp add: parse_enc)
qed simp

end

sublocale byte_io \<subseteq> question: item_codec question_wire "question_parse B U" "wire_question U" for U
  by unfold_locales (rule question_parse_wire)

sublocale byte_io \<subseteq> rr: item_codec record_wire "record_parse B U" "wire_record U" for U
  by unfold_locales (rule record_parse_wire)

section \<open>Messages\<close>

record dns_packet =
  header :: dns_header
  questions :: "dns_question list"
  answers :: "resource_record list"
  authorities :: "resource_record list"
  additionals :: "resource_record list"

definition packet_parse :: "buf_api \<Rightarrow> unicode \<Rightarrow> u8 list \<Rightarrow> (dns_error, dns_packet) outcome" where
  "packet_parse B U raw_bytes =
     obind (header_parse B (new_cursor raw_bytes)) (\<lambda>(h, c0).
     obind (repeat_n (question_parse B U) (unat (qdcount h)) c0) (\<lambda>(qs, c1).
     obind (repeat_n (record_parse B U) (unat (ancount h)) c1) (\<lambda>(ans, c2).
     obind (repeat_n (record_parse B U) (unat (nscount h)) c2) (\<lambda>(auths, c3).
     obind (repeat_n (record_parse B U) (unat (arcount h)) c3) (\<lambda>(adds, c4).
     Ok \<lparr>header = h, questions = qs, answers = ans, authorities = auths, additionals = adds\<rparr>)))))"

definition counted_header :: "dns_packet \<Rightarrow> dns_header" where
  "counted_header p = (header p)
     \<lparr>qdcount := word_of_nat (length (questions p)),
      ancount := word_of_nat (length (answers p)),
      nscount := word_of_nat (length (authorities p)),
      arcount := word_of_nat (length (additionals p))\<rparr>"

definition to_bytes :: "buf_api \<Rightarrow> dns_packet \<Rightarrow> u8 list" where
  "to_bytes B p =
     (let buf = header_write B (counted_header p) [];
          buf = fold (question_write B) (questions p) buf;
          buf = fold (record_write B) (answers p) buf;
          buf = fold (record_write B) (authorities p) buf
      in fold (record_write B) (additionals p) buf)"

definition build_blocked_response :: "dns_packet \<Rightarrow> bool \<Rightarrow> dns_packet" where
  "build_blocked_response p use_nxdomain =
     (let response = p\<lparr>header := (header p)\<lparr>is_response := True\<rparr>\<rparr>
      in if use_nxdomain
         then response\<lparr>header := (header response)\<lparr>rcode := NXDomain\<rparr>\<rparr>
         else
           (let response = response\<lparr>header := (header response)\<lparr>rcode := NoError\<rparr>\<rparr>
            in case questions p of
                 [] \<Rightarrow> response
               | question # _ \<Rightarrow>
                   (if q_type question = QT_A
                    then response\<lparr>answers := answers response @
                      [\<lparr>rr_name = q_name question, rr_type = QT_A, rr_class = QC_IN,
                        rr_ttl = 10, rr_data = RD_A (Ipv4 0 0 0 0)\<rparr>]\<rparr>
                    else response)))"

section \<open>The wire form\<close>

definition wire_packet :: "unicode \<Rightarrow> dns_packet \<Rightarrow> bool" where
  "wire_packet U p \<longleftrightarrow>
     list_all (wire_question U) (questions p) \<and> list_all (wire_record U) (answers p)
     \<and> list_all (wire_record U) (authorities p) \<and> list_all (wire_record U) (additionals p)
     \<and> length (questions p) < 65536 \<and> length (answers p) < 65536
     \<and> length (authorities p) < 65536 \<and> length (additionals p) < 65536"

section \<open>Lemmas\<close>

lemma counted_header_counts [simp]:
  "length (questions p) < 65536 \<Longrightarrow> unat (qdcount (counted_header p)) = length (questions p)"
  "length (answers p) < 65536 \<Longrightarrow> unat (ancount (counted_header p)) = length (answers p)"
  "length (authorities p) < 65536 \<Longrightarrow> unat (nscount (counted_header p)) = length (authorities p)"
  "length (additionals p) < 65536 \<Longrightarrow> unat (arcount (counted_header p)) = length (additionals p)"
  by (simp_all add: counted_header_def)

context byte_io
begin

lemma fold_question_write: "fold (question_write B) qs out = out @ concat (map question_wire qs)"
  by (induction qs arbitrary: out) (auto simp: question_write_wire)

lemma fold_record_write:
  "list_all (wire_record U) rs \<Longrightarrow> fold (record_write B) rs out = out @ concat (map record_wire rs)"
  by (induction rs arbitrary: out) (auto simp: record_write_wire [of U])

lemma to_bytes_wire:
  "wire_packet U p \<Longrightarrow> to_bytes B p = header_write B (counted_header p) []
     @ concat (map question_wire (questions p)) @ concat (map record_wire (answers p))
     @ concat (map record_wire (authorities p)) @ concat (map record_wire (additionals p))"
  by (simp add: to_bytes_def wire_packet_def fold_question_write fold_record_write [of U])

lemma packet_parse_to_bytes [codec]:
  assumes "wire_packet U p"
  shows "packet_parse B U (to_bytes B p) = Ok (p\<lparr>header := counted_header p\<rparr>)"
proof -
  have start: "new_cursor (header_write B (counted_header p) [] @ post) =
      between [] (header_write B (counted_header p) [] @ post)" for post
    by (rule new_cursor_between)
  have last_sec: "list_all (wire_record U) rs \<Longrightarrow> length rs = n \<Longrightarrow>
      repeat_n (record_parse B U) n (between pre (concat (map record_wire rs))) =
      Ok (rs, between (pre @ concat (map record_wire rs)) [])" for rs n pre
    using rr.parse_section [of U rs n pre "[]"] by simp
  show ?thesis using assms unfolding to_bytes_wire [OF assms]
    by (simp add: packet_parse_def start header_parse_write [of "[]", simplified]
        question.parse_section rr.parse_section last_sec wire_packet_def)
qed

text \<open>Parsing returns: the loops over sections are counted, and every name ends.\<close>

lemma record_parse_not_Hang: "record_parse B U c \<noteq> Hang"
proof -
  have loop: "txt_loop B n r acc c \<noteq> Hang" for n r acc c
    by (induction B n r acc c rule: txt_loop.induct)
      (subst txt_loop.simps, auto simp: or_panic_eq_Hang Let_def)
  show ?thesis
    by (auto simp: record_parse_def rdata_parse_def obind_eq_Hang or_panic_eq_Hang Let_def loop
        read_domain_name_total split: if_splits)
qed

lemma question_parse_total:
  "question_parse B U c \<noteq> Hang" "question_parse B U c \<noteq> Panic"
  by (auto simp: question_parse_def obind_eq_Hang obind_eq_Panic or_panic_eq_Hang
      read_domain_name_total reads left_in_def)

lemma header_parse_total: "header_parse B c \<noteq> Hang" "header_parse B c \<noteq> Panic"
  by (auto simp: header_parse_def Let_def reads left_in_def)

lemma packet_parse_not_Hang: "packet_parse B U raw \<noteq> Hang"
  by (auto simp: packet_parse_def obind_eq_Hang header_parse_total record_parse_not_Hang
      question_parse_total repeat_n_not_Hang)

end

section \<open>Where parsing panics\<close>

text \<open>
  \<open>strings_overrun n bs\<close>: of data of \<open>n\<close> bytes, read as strings behind a length byte each, one does not
  fit into the bytes of the buffer. \<open>txt_overrun\<close>: at this place the code reads a record of type
  TXT, complete up to its data, with such data.
\<close>

fun strings_overrun :: "nat \<Rightarrow> u8 list \<Rightarrow> bool" where
  "strings_overrun n [] = (0 < n)"
| "strings_overrun n (b # rest) =
     (0 < n \<and> (length rest < unat b \<or> strings_overrun (n - Suc (unat b)) (drop (unat b) rest)))"

definition txt_overrun :: "buf_api \<Rightarrow> unicode \<Rightarrow> cursor \<Rightarrow> bool" where
  "txt_overrun B U c \<longleftrightarrow> (\<exists>name c1. read_domain_name B U c = Ok (name, c1) \<and> 10 \<le> left_in c1
     \<and> (let d = cur_data c1; p = cur_pos c1; rdlength = unat (be16 (d ! (p + 8)) (d ! (p + 9))) in
         qtype_from_u16 (be16 (d ! p) (d ! (p + 1))) = QT_TXT
         \<and> rdlength \<le> left_in c1 - 10 \<and> strings_overrun rdlength (drop (p + 10) d)))"

context byte_io
begin

text \<open>Only the lengths inside TXT data can make a record panic.\<close>

lemma txt_loop_Panic: "txt_loop B n r acc c = Panic \<longleftrightarrow> strings_overrun (n - r) (drop (cur_pos c) (cur_data c))"
proof (induction "n - r" arbitrary: r acc c rule: less_induct)
  case less
  show ?case
  proof (cases "r < n")
    case False
    then show ?thesis by (subst txt_loop.simps) (cases "drop (cur_pos c) (cur_data c)"; simp)
  next
    case r: True
    show ?thesis
    proof (cases "cur_pos c < length (cur_data c)")
      case False
      then show ?thesis using r by (subst txt_loop.simps) (simp add: reads left_in_def)
    next
      case True
      define k where "k = unat (cur_data c ! cur_pos c)"
      have d: "drop (cur_pos c) (cur_data c) = cur_data c ! cur_pos c # drop (Suc (cur_pos c)) (cur_data c)"
        using True by (rule Cons_nth_drop_Suc [symmetric])
      have n: "n - r - Suc k = n - (r + (1 + k))" by simp
      have "n - (r + (1 + k)) < n - r" using r by simp
      from less.hyps [OF this] show ?thesis using r True
        unfolding d strings_overrun.simps k_def [symmetric] n
        by (subst txt_loop.simps) (auto simp: reads left_in_def Let_def k_def [symmetric] ac_simps)
    qed
  qed
qed

lemma rdata_parse_Panic_iff:
  "n \<le> left_in c \<Longrightarrow> rdata_parse B U t n c = Panic \<longleftrightarrow>
    t = QT_TXT \<and> strings_overrun n (drop (cur_pos c) (cur_data c))"
  using read_domain_name_total
  by (auto simp: rdata_parse_def obind_eq_Panic reads txt_loop_Panic)

lemma record_parse_Panic_iff: "record_parse B U c = Panic \<longleftrightarrow> txt_overrun B U c"
proof (cases "read_domain_name B U c")
  case (Ok r)
  then show ?thesis
    by (cases r) (auto simp: record_parse_def txt_overrun_def obind_eq_Panic reads Let_def left_in_def
        rdata_parse_Panic_iff advance_def ac_simps)
qed (simp_all add: record_parse_def txt_overrun_def read_domain_name_total)

lemma packet_parse_Panic_iff:
  "packet_parse B U raw = Panic \<longleftrightarrow>
    (\<exists>h c0 qs c1 n rs c. header_parse B (new_cursor raw) = Ok (h, c0)
      \<and> repeat_n (question_parse B U) (unat (qdcount h)) c0 = Ok (qs, c1)
      \<and> n < unat (ancount h) + unat (nscount h) + unat (arcount h)
      \<and> repeat_n (record_parse B U) n c1 = Ok (rs, c) \<and> txt_overrun B U c)"
proof -
  have "repeat_n (question_parse B U) k c \<noteq> Panic" for k c
    by (simp add: repeat_n_Panic_iff question_parse_total)
  then have "packet_parse B U raw = Panic \<longleftrightarrow>
    (\<exists>h c0 qs c1. header_parse B (new_cursor raw) = Ok (h, c0)
      \<and> repeat_n (question_parse B U) (unat (qdcount h)) c0 = Ok (qs, c1)
      \<and> repeat_n (record_parse B U) (unat (ancount h) + unat (nscount h) + unat (arcount h)) c1 = Panic)"
    by (simp add: packet_parse_def header_parse_total obind_eq_Panic obind_eq_Ok repeat_n_add) blast
  then show ?thesis unfolding repeat_n_Panic_iff record_parse_Panic_iff by blast
qed

end

text \<open>A record whose name is a pointer to the question is read on from behind the question's name.\<close>

lemma pointer_and_type: "pointer_wire 12 @ bytes16 ty = bytes32 (word_of_nat (0xC00C0000 + unat ty))"
proof -
  obtain n where n: "unat ty = n" "n < 65536" using unat_u16_lt by blast
  then have u: "unat (word_of_nat (0xC00C0000 + n) :: u32) = 0xC00C0000 + n"
    unfolding unat_of_nat by (intro mod_less) simp
  have m: "(word_of_nat a :: u8) = word_of_nat b" if "a mod 256 = b mod 256" for a b :: nat
    using that by (simp add: word_unat_eq_iff)
  have "(0xC00C0000 + n) mod 256 = n mod 256"
    using mod_mult_self1 [of n 12585984 256] by (simp add: add.commute)
  moreover have "(0xC00C0000 + n) div 256 = 12585984 + n div 256"
    using div_mult_self1 [of 256 n 12585984] by (simp add: add.commute)
  moreover have "(12585984 + n div 256) mod 256 = n div 256 mod 256"
    using mod_mult_self1 [of "n div 256" 49164 256] by (simp add: add.commute)
  moreover have "(0xC00C0000 + n) div 65536 = 49164" "(0xC00C0000 + n) div 16777216 = 192"
    using n(2) by simp_all
  moreover have "(word_of_nat 49164 :: u8) = 12" by simp
  ultimately show ?thesis
    by (simp only: pointer_wire_def bytes16_def bytes32_def u n(1)) (auto intro!: m)
qed

context byte_io
begin

lemma compressed_record:
  assumes "wire_question U q" "q_name q \<noteq> []" "q_type q \<noteq> QT_CNAME" "q_type q \<noteq> QT_TXT" "length pre = 12"
  shows "record_parse B U (between (pre @ question_wire q)
      (pointer_wire 12 @ bytes16 ty @ bytes16 1 @ bytes32 ttl @ post)) =
    Ok (\<lparr>rr_name = q_name q, rr_type = q_type q, rr_class = q_class q,
         rr_ttl = word_of_nat (0xC00C0000 + unat ty), rr_data = RD_Raw [hd (bytes32 ttl)]\<rparr>,
      between (pre @ question_wire q @ pointer_wire 12 @ bytes16 ty @ bytes16 1 @ [hd (bytes32 ttl)])
        (tl (bytes32 ttl) @ post))"
proof -
  define v :: u32 where "v = word_of_nat (0xC00C0000 + unat ty)"
  have v: "pointer_wire 12 @ bytes16 ty @ x = bytes32 v @ x" for x
    using pointer_and_type [of ty] unfolding v_def by (metis append.assoc)
  have name: "read_domain_name B U (between (pre @ question_wire q)
      (pointer_wire 12 @ bytes16 ty @ bytes16 1 @ bytes32 ttl @ post)) =
    Ok (q_name q, between (pre @ name_wire (q_name q))
      (bytes16 (qtype_to_u16 (q_type q)) @ bytes16 (qclass_to_u16 (q_class q))
        @ bytes32 v @ bytes16 1 @ bytes32 ttl @ post))"
    using read_compressed [of U "q_name q" "[]" pre "bytes16 (qtype_to_u16 (q_type q))
        @ bytes16 (qclass_to_u16 (q_class q))" "bytes16 ty @ bytes16 1 @ bytes32 ttl @ post"]
      assms(1,2,5)
    by (simp add: wire_question_def question_wire_def join_split_char v)
  have b: "bytes32 ttl = hd (bytes32 ttl) # tl (bytes32 ttl)" by (simp add: bytes32_def)
  have raw: "rdata_parse B U (q_type q) 1 (between p (bytes32 ttl @ post)) =
      Ok (RD_Raw [hd (bytes32 ttl)], between (p @ [hd (bytes32 ttl)]) (tl (bytes32 ttl) @ post))" for p
    using copy_between [of 1 "[hd (bytes32 ttl)]" p "tl (bytes32 ttl) @ post"] assms(3,4)
    by (subst b) (simp add: rdata_parse_def)
  show ?thesis unfolding v_def [symmetric] v question_wire_def append_assoc
    using assms(1) raw
    by (simp add: record_parse_def name [unfolded v question_wire_def append_assoc] wire_question_def
        canonical_type_def canonical_class_def remaining get_u16_between get_u32_between Let_def)
qed

end

section \<open>Examples\<close>

text \<open>Evaluating the parser on given bytes.\<close>

lemmas parse_eval = packet_parse_def header_parse_def question_parse_def record_parse_def
  rdata_parse_def read_domain_name_def slice.read_name_loop_eq slice.reads slice.get_u16
  new_cursor_def advance_def set_position_def left_in_def Let_def be16_def be32_def
  pointer_offset_def from_utf8_def push_label_def to_lowercase_def char_lower_def ascii_lower_def
  qtype_from_u16_def qclass_from_u16_def opcode_from_u8_def rcode_from_u8_def utf8_next_def

definition txt_response :: "u8 list" where
  "txt_response =
     [0x12, 0x34, 0x81, 0x80, 0, 0, 0, 1, 0, 0, 0, 0,
      0, 0, 16, 0, 1, 0, 0, 0, 60, 0, 1, 5]"

lemma txt_response_parse: "packet_parse slice_api U txt_response = Panic"
  by (simp add: parse_eval txt_response_def lit_simps txt_loop.simps)

text \<open>A message with a question and a record of three kinds.\<close>

definition sample_packet :: dns_packet where
  "sample_packet = \<lparr>header = sample_header,
     questions = [\<lparr>q_name = lit ''a.b'', q_type = QT_ANY, q_class = QC_IN\<rparr>],
     answers = [\<lparr>rr_name = lit ''a.b'', rr_type = QT_A, rr_class = QC_IN, rr_ttl = 300,
                  rr_data = RD_A (Ipv4 192 0 2 1)\<rparr>,
                \<lparr>rr_name = lit ''a.b'', rr_type = QT_TXT, rr_class = QC_IN, rr_ttl = 60,
                  rr_data = RD_TXT [lit ''v=1'', lit ''x'']\<rparr>],
     authorities = [],
     additionals = [\<lparr>rr_name = [], rr_type = QT_Unknown 41, rr_class = QC_Unknown 4096,
                      rr_ttl = 0, rr_data = RD_Raw []\<rparr>]\<rparr>"

lemma sample_packet_wire: "wire_packet U sample_packet"
  by (simp add: sample_packet_def wire_packet_def wire_question_def wire_record_def wire_name_def
      wire_label_def wire_txt_def lit_simps scalar_def as_bytes_def utf8_char_def to_lowercase_def
      char_lower_def ascii_lower_def canonical_type_def canonical_class_def qtype_from_u16_def
      qclass_from_u16_def label_wire_def)

section \<open>Properties\<close>

text \<open>C5: a message written by \<open>to_bytes\<close> is parsed back to the same message, whatever its counts
  said before: the writer sets them from the sections. This covers questions and records of
  every kind that fit the wire (\<open>wire_packet\<close>), and every length field.\<close>

theorem packet_roundtrip:
  assumes "byte_io B" "wire_packet U p"
  shows "packet_parse B U (to_bytes B p) = Ok (p\<lparr>header := counted_header p\<rparr>)"
  using assms by (rule byte_io.packet_parse_to_bytes)

theorem packet_roundtrip_witness:
  "\<forall>U. packet_parse slice_api U (to_bytes slice_api sample_packet) =
    Ok (sample_packet\<lparr>header := counted_header sample_packet\<rparr>)"
  using packet_roundtrip [OF slice.byte_io_axioms sample_packet_wire] by blast

text \<open>C6: parsing any bytes returns; and it panics exactly on a message whose header and questions
  can be read and of whose announced records, after any number that can be read, one is of type
  TXT with a string that claims more bytes than are left.\<close>

theorem packet_parse_outcomes:
  assumes "byte_io B"
  shows "packet_parse B U raw \<noteq> Hang
    \<and> (packet_parse B U raw = Panic \<longleftrightarrow>
        (\<exists>h c0 qs c1 n rs c. header_parse B (new_cursor raw) = Ok (h, c0)
          \<and> repeat_n (question_parse B U) (unat (qdcount h)) c0 = Ok (qs, c1)
          \<and> n < unat (ancount h) + unat (nscount h) + unat (arcount h)
          \<and> repeat_n (record_parse B U) n c1 = Ok (rs, c) \<and> txt_overrun B U c))"
  using byte_io.packet_parse_not_Hang [OF assms] byte_io.packet_parse_Panic_iff [OF assms] by blast

text \<open>A response whose only string claims five bytes of which none is there.\<close>

theorem packet_parse_outcomes_witness:
  "\<forall>U. packet_parse slice_api U txt_response = Panic
    \<and> (\<exists>h c0 qs c1 n rs c. header_parse slice_api (new_cursor txt_response) = Ok (h, c0)
        \<and> repeat_n (question_parse slice_api U) (unat (qdcount h)) c0 = Ok (qs, c1)
        \<and> n < unat (ancount h) + unat (nscount h) + unat (arcount h)
        \<and> repeat_n (record_parse slice_api U) n c1 = Ok (rs, c) \<and> txt_overrun slice_api U c)"
  using packet_parse_outcomes [OF slice.byte_io_axioms, of _ txt_response] txt_response_parse by metis

text \<open>C37: an answer compressed in the usual way is misread. Whatever the question, where the name of the
  first answer is a pointer to the name asked for, the code reads on behind the question's name:
  the type and class are those of the question, the lifetime is made of the pointer and the
  record's type (more than a hundred years), the record's class is taken for the length of
  its data, and the data is the first byte of the lifetime.\<close>

theorem compressed_answer_misread:
  assumes "byte_io B" "wire_question U q" "q_name q \<noteq> []" "q_type q \<noteq> QT_CNAME" "q_type q \<noteq> QT_TXT"
    and "qdcount h = 1" "ancount h = 1" "nscount h = 0" "arcount h = 0"
    and "raw = header_write B h [] @ question_wire q
      @ [0xC0, 12] @ bytes16 ty @ bytes16 1 @ bytes32 ttl @ post"
  shows "packet_parse B U raw = Ok \<lparr>header = h, questions = [q],
      answers = [\<lparr>rr_name = q_name q, rr_type = q_type q, rr_class = q_class q,
        rr_ttl = word_of_nat (0xC00C0000 + unat ty), rr_data = RD_Raw [hd (bytes32 ttl)]\<rparr>],
      authorities = [], additionals = []\<rparr>"
proof -
  have p: "[0xC0, 12] = pointer_wire 12" by (simp add: pointer_wire_def)
  have l: "length (header_write B h []) = 12" by (simp add: byte_io.header_write_bytes [OF assms(1)])
  have s: "header_parse B (new_cursor (header_write B h [] @ post)) = Ok (h, between (header_write B h []) post)" for post
    using byte_io.header_parse_write [OF assms(1), of "[]" h post] by (simp add: new_cursor_between)
  show ?thesis
    unfolding assms(10) p packet_parse_def s
    using assms(6-9) byte_io.question_parse_wire [OF assms(1,2), of "header_write B h []"]
      byte_io.compressed_record [OF assms(1-5) l, of ty ttl post]
    by simp
qed

text \<open>The question \<open>a\<close>, type A, and the answer 192.0.2.1 for a minute: the address is lost.\<close>

definition compressed_header :: dns_header where
  "compressed_header = sample_header\<lparr>opcode_of := Query, ancount := 1, arcount := 0\<rparr>"

theorem compressed_answer_misread_witness:
  "\<forall>U. \<exists>p. packet_parse slice_api U (header_write slice_api compressed_header []
      @ [1, 97, 0, 0, 1, 0, 1] @ [0xC0, 12, 0, 1, 0, 1, 0, 0, 0, 60, 0, 4, 192, 0, 2, 1]) = Ok p
    \<and> map rr_ttl (answers p) = [0xC00C0001] \<and> map rr_data (answers p) = [RD_Raw [0]]"
proof
  fix U
  let ?q = "\<lparr>q_name = lit ''a'', q_type = QT_A, q_class = QC_IN\<rparr>"
  have q: "wire_question U ?q"
    by (simp add: wire_question_def wire_name_def wire_label_def lit_simps scalar_def as_bytes_def
        utf8_char_def to_lowercase_def char_lower_def ascii_lower_def canonical_type_def
        canonical_class_def qtype_from_u16_def qclass_from_u16_def)
  have "header_write slice_api compressed_header []
      @ [1, 97, 0, 0, 1, 0, 1] @ [0xC0, 12, 0, 1, 0, 1, 0, 0, 0, 60, 0, 4, 192, 0, 2, 1] =
    header_write slice_api compressed_header [] @ question_wire ?q
      @ [0xC0, 12] @ bytes16 1 @ bytes16 1 @ bytes32 60 @ [0, 4, 192, 0, 2, 1]"
    by (simp add: question_wire_def name_wire_def trim_end_char_def label_wire_def as_bytes_def
        utf8_char_def lit_simps bytes16_def bytes32_def)
  from compressed_answer_misread [OF slice.byte_io_axioms q _ _ _ _ _ _ _ this]
  show "\<exists>p. packet_parse slice_api U (header_write slice_api compressed_header []
      @ [1, 97, 0, 0, 1, 0, 1] @ [0xC0, 12, 0, 1, 0, 1, 0, 0, 0, 60, 0, 4, 192, 0, 2, 1]) = Ok p
    \<and> map rr_ttl (answers p) = [0xC00C0001] \<and> map rr_data (answers p) = [RD_Raw [0]]"
    by (simp add: lit_simps compressed_header_def sample_header_def bytes32_def)
qed

end
