(* ===== verification/LruStore.thy ===== *)
theory LruStore
  imports Prelude
begin

text \<open>
  The \<open>LruCache\<close> of the \<open>lru\<close> crate, which is not part of the repository: a parameter with
  the methods the cache calls, and the locale \<open>lru_store\<close> with their documented behaviour.
  \<open>entries\<close> lists the content from the most to the least recently used entry, the order the
  crate's \<open>iter\<close> documents. \<open>list_lru\<close> is a list kept in that order.
\<close>

section \<open>The interface\<close>

record ('c, 'k, 'v) lru_api =
  lru_new :: "nat \<Rightarrow> 'c"
  lru_get :: "'k \<Rightarrow> 'c \<Rightarrow> 'v option \<times> 'c"
  lru_pop :: "'k \<Rightarrow> 'c \<Rightarrow> 'c"
  lru_put :: "'k \<Rightarrow> 'v \<Rightarrow> 'c \<Rightarrow> 'c"
  lru_len :: "'c \<Rightarrow> nat"
  lru_cap :: "'c \<Rightarrow> nat"
  lru_is_empty :: "'c \<Rightarrow> bool"
  lru_clear :: "'c \<Rightarrow> 'c"

definition del_key :: "'k \<Rightarrow> ('k \<times> 'v) list \<Rightarrow> ('k \<times> 'v) list" where
  "del_key k xs = filter (\<lambda>e. fst e \<noteq> k) xs"

definition to_front :: "'k \<Rightarrow> ('k \<times> 'v) list \<Rightarrow> ('k \<times> 'v) list" where
  "to_front k xs = (case map_of xs k of None \<Rightarrow> xs | Some v \<Rightarrow> (k, v) # del_key k xs)"

section \<open>Recency lists\<close>

lemma map_of_del_key: "map_of (del_key k xs) = (map_of xs)(k := None)"
  by (induction xs) (auto simp: del_key_def fun_eq_iff)

lemma set_del_key: "set (del_key k xs) \<subseteq> set xs"
  by (auto simp: del_key_def)

lemma fst_del_key: "k \<notin> fst ` set (del_key k xs)"
  by (auto simp: del_key_def)

lemma distinct_del_key: "distinct (map fst xs) \<Longrightarrow> distinct (map fst (del_key k xs))"
  by (simp add: del_key_def distinct_map_filter)

lemma length_del_key: "length (del_key k xs) \<le> length xs"
  by (simp add: del_key_def)

lemma length_del_key_less: "map_of xs k \<noteq> None \<Longrightarrow> length (del_key k xs) < length xs"
proof (induction xs)
  case (Cons x xs)
  then show ?case
    by (auto simp: del_key_def less_Suc_eq_le split: if_splits)
qed simp

lemma del_key_absent: "map_of xs k = None \<Longrightarrow> del_key k xs = xs"
  by (induction xs) (auto simp: del_key_def split: if_splits)

lemma map_of_to_front [simp]: "map_of (to_front k xs) = map_of xs"
  by (auto simp: to_front_def map_of_del_key fun_eq_iff split: option.split)

lemma set_to_front [simp]: "distinct (map fst xs) \<Longrightarrow> set (to_front k xs) = set xs"
proof (cases "map_of xs k")
  case (Some v)
  assume d: "distinct (map fst xs)"
  have mem: "e \<in> set (to_front k xs) \<longleftrightarrow> e = (k, v) \<or> e \<in> set xs \<and> fst e \<noteq> k" for e
    using Some by (auto simp: to_front_def del_key_def)
  have "e \<in> set xs \<and> fst e = k \<longleftrightarrow> e = (k, v)" for e
    using map_of_eq_Some_iff [OF d, of k v] map_of_eq_Some_iff [OF d, of k "snd e"] Some
    by (cases e) auto
  then show ?thesis using mem by blast
qed (simp add: to_front_def)

lemma distinct_to_front: "distinct (map fst xs) \<Longrightarrow> distinct (map fst (to_front k xs))"
  by (auto simp: to_front_def distinct_del_key fst_del_key [simplified image_iff] del_key_def
      distinct_map_filter split: option.split)

lemma length_to_front [simp]: "distinct (map fst xs) \<Longrightarrow> length (to_front k xs) = length xs"
  by (metis distinct_card distinct_to_front length_map set_map set_to_front)

lemma map_of_take_le: "map_of (take n xs) \<subseteq>\<^sub>m map_of xs"
proof -
  have "map_of xs = map_of (drop n xs) ++ map_of (take n xs)"
    by (metis append_take_drop_id map_of_append)
  then show ?thesis by simp
qed

section \<open>The contract\<close>

locale lru_store =
  fixes L :: "('c, 'k, 'v) lru_api"
    and entries :: "'c \<Rightarrow> ('k \<times> 'v) list"
    and valid :: "'c \<Rightarrow> bool"
  assumes new: "0 < n \<Longrightarrow> valid (lru_new L n)" "0 < n \<Longrightarrow> entries (lru_new L n) = []"
      "0 < n \<Longrightarrow> lru_cap L (lru_new L n) = n"
    and bounded: "valid c \<Longrightarrow> distinct (map fst (entries c))"
      "valid c \<Longrightarrow> length (entries c) \<le> lru_cap L c" "valid c \<Longrightarrow> 0 < lru_cap L c"
    and get: "valid c \<Longrightarrow> fst (lru_get L k c) = map_of (entries c) k"
      "valid c \<Longrightarrow> valid (snd (lru_get L k c))"
      "valid c \<Longrightarrow> lru_cap L (snd (lru_get L k c)) = lru_cap L c"
      "valid c \<Longrightarrow> entries (snd (lru_get L k c)) = to_front k (entries c)"
    and pop: "valid c \<Longrightarrow> valid (lru_pop L k c)"
      "valid c \<Longrightarrow> lru_cap L (lru_pop L k c) = lru_cap L c"
      "valid c \<Longrightarrow> entries (lru_pop L k c) = del_key k (entries c)"
    and put: "valid c \<Longrightarrow> valid (lru_put L k v c)"
      "valid c \<Longrightarrow> lru_cap L (lru_put L k v c) = lru_cap L c"
      "valid c \<Longrightarrow> entries (lru_put L k v c) =
        take (lru_cap L c) ((k, v) # del_key k (entries c))"
    and len: "valid c \<Longrightarrow> lru_len L c = length (entries c)"
      "valid c \<Longrightarrow> lru_is_empty L c \<longleftrightarrow> entries c = []"
    and clear: "valid c \<Longrightarrow> valid (lru_clear L c)"
      "valid c \<Longrightarrow> lru_cap L (lru_clear L c) = lru_cap L c"
      "valid c \<Longrightarrow> entries (lru_clear L c) = []"
begin

definition content :: "'c \<Rightarrow> 'k \<rightharpoonup> 'v" where
  "content c = map_of (entries c)"

lemma content_new: "0 < n \<Longrightarrow> content (lru_new L n) = Map.empty"
  by (simp add: content_def new)

lemma content_get: "valid c \<Longrightarrow> content (snd (lru_get L k c)) = content c"
  by (simp add: content_def get)

lemma content_pop: "valid c \<Longrightarrow> content (lru_pop L k c) = (content c)(k := None)"
  by (simp add: content_def pop map_of_del_key)

lemma content_put_same: "valid c \<Longrightarrow> content (lru_put L k v c) k = Some v"
  using bounded(3) [of c] by (cases "lru_cap L c") (simp_all add: content_def put)

lemma content_put_le: "valid c \<Longrightarrow> content (lru_put L k v c) \<subseteq>\<^sub>m (content c)(k \<mapsto> v)"
proof -
  assume c: "valid c"
  have "map_of ((k, v) # del_key k (entries c)) = (content c)(k \<mapsto> v)"
    by (simp add: content_def map_of_del_key)
  then show ?thesis using map_of_take_le [of "lru_cap L c" "(k, v) # del_key k (entries c)"] c
    by (simp add: content_def put)
qed

text \<open>Room for the new entry: nothing else goes.\<close>

lemma content_put_room:
  assumes "valid c" "length (entries c) < lru_cap L c \<or> content c k \<noteq> None"
  shows "content (lru_put L k v c) = (content c)(k \<mapsto> v)"
proof -
  have "length (del_key k (entries c)) < lru_cap L c"
    using assms length_del_key [of k "entries c"] length_del_key_less [of "entries c" k]
      bounded(2) [of c] by (auto simp: content_def)
  then have "take (lru_cap L c) ((k, v) # del_key k (entries c)) = (k, v) # del_key k (entries c)"
    by simp
  then show ?thesis using assms(1) by (simp add: content_def put map_of_del_key)
qed

text \<open>No room: exactly the least recently used entry goes.\<close>

lemma put_evicts_last:
  assumes "valid c" "length (entries c) = lru_cap L c" "content c k = None"
  shows "entries (lru_put L k v c) = (k, v) # butlast (entries c)"
proof -
  obtain m where m: "lru_cap L c = Suc m"
    using bounded(3) [OF assms(1)] by (cases "lru_cap L c") auto
  have "del_key k (entries c) = entries c"
    using assms(3) by (simp add: content_def del_key_absent)
  with assms m show ?thesis by (simp add: put butlast_conv_take)
qed

lemma set_entries:
  assumes "valid c"
  shows "set (entries (snd (lru_get L k c))) = set (entries c)"
    "set (entries (lru_pop L k c)) \<subseteq> set (entries c)"
    "set (entries (lru_put L k v c)) \<subseteq> insert (k, v) (set (entries c))"
  using assms bounded(1) [OF assms] set_del_key [of k "entries c"]
    set_take_subset [of "lru_cap L c" "(k, v) # del_key k (entries c)"]
  by (auto simp: get pop put)

end

section \<open>A list in order of use\<close>

definition list_lru :: "(nat \<times> ('k \<times> 'v) list, 'k, 'v) lru_api" where
  "list_lru = \<lparr>
     lru_new = (\<lambda>n. (n, [])),
     lru_get = (\<lambda>k (n, xs). (map_of xs k, (n, to_front k xs))),
     lru_pop = (\<lambda>k (n, xs). (n, del_key k xs)),
     lru_put = (\<lambda>k v (n, xs). (n, take n ((k, v) # del_key k xs))),
     lru_len = (\<lambda>(n, xs). length xs),
     lru_cap = fst,
     lru_is_empty = (\<lambda>(n, xs). xs = []),
     lru_clear = (\<lambda>(n, xs). (n, []))\<rparr>"

definition list_lru_valid :: "nat \<times> ('k \<times> 'v) list \<Rightarrow> bool" where
  "list_lru_valid = (\<lambda>(n, xs). 0 < n \<and> distinct (map fst xs) \<and> length xs \<le> n)"

lemma distinct_put: "distinct (map fst xs) \<Longrightarrow> distinct (map fst (take n ((k, v) # del_key k xs)))"
  using distinct_del_key [of xs k] fst_del_key [of k xs]
  by (simp only: take_map [symmetric] distinct_take) (simp add: distinct_take take_map image_def)

interpretation list_lru: lru_store "list_lru :: (nat \<times> ('k \<times> 'v) list, 'k, 'v) lru_api" snd list_lru_valid
  by unfold_locales
    (auto simp: list_lru_def list_lru_valid_def distinct_to_front distinct_del_key distinct_put
      intro: le_trans [OF length_del_key])

end
