(* ===== verification/Cache.thy ===== *)
theory Cache
  imports Packet LruStore
begin

text \<open>
  \<open>cache/lru_cache.rs\<close>: the response cache. A \<open>Duration\<close> is a number of nanoseconds, an
  \<open>Instant\<close> the nanoseconds on the monotonic clock; each clock reading of an operation is an
  argument of it. The counters are 64-bit words that wrap around.
\<close>

section \<open>Durations\<close>

definition from_secs :: "nat \<Rightarrow> nat" where
  "from_secs n = n * 1000000000"

definition as_secs :: "nat \<Rightarrow> nat" where
  "as_secs d = d div 1000000000"

text \<open>\<open>Instant::elapsed\<close> saturates at zero.\<close>

definition elapsed :: "nat \<Rightarrow> nat \<Rightarrow> nat" where
  "elapsed now created = now - created"

text \<open>\<open>Ord::clamp\<close> panics when the bounds are in the wrong order.\<close>

definition clamp :: "nat \<Rightarrow> nat \<Rightarrow> nat \<Rightarrow> nat option" where
  "clamp x lo hi =
     (if lo \<le> hi then Some (if x < lo then lo else if hi < x then hi else x) else None)"

section \<open>State\<close>

record cached_response =
  cr_packet :: dns_packet
  cr_query_type :: query_type
  cr_created_at :: nat
  cr_ttl :: nat

type_synonym cache_key = "rstr \<times> query_type"
type_synonym 'c cache_lru = "('c, cache_key, cached_response) lru_api"

record cache_stats =
  hits :: u64
  misses :: u64
  evictions :: u64
  expirations :: u64

record 'c dns_cache =
  store :: 'c
  min_ttl :: nat
  max_ttl :: nat
  stats :: cache_stats

section \<open>Operations\<close>

definition is_expired :: "nat \<Rightarrow> cached_response \<Rightarrow> bool" where
  "is_expired now r \<longleftrightarrow> cr_ttl r \<le> elapsed now (cr_created_at r)"

definition remaining_ttl_secs :: "nat \<Rightarrow> cached_response \<Rightarrow> u32" where
  "remaining_ttl_secs now r =
     (let el = elapsed now (cr_created_at r) in
      if cr_ttl r \<le> el then 0 else word_of_nat (as_secs (cr_ttl r - el)))"

definition cache_new :: "'c cache_lru \<Rightarrow> nat \<Rightarrow> nat \<Rightarrow> nat \<Rightarrow> 'c dns_cache" where
  "cache_new L capacity min_ttl_secs max_ttl_secs =
     (let cap = (if capacity = 0 then 1024 else capacity)
      in \<lparr>store = lru_new L cap, min_ttl = from_secs min_ttl_secs,
          max_ttl = from_secs max_ttl_secs,
          stats = \<lparr>hits = 0, misses = 0, evictions = 0, expirations = 0\<rparr>\<rparr>)"

definition cache_key :: "unicode \<Rightarrow> rstr \<Rightarrow> query_type \<Rightarrow> cache_key" where
  "cache_key U domain qtype = (to_lowercase U domain, qtype)"

text \<open>
  \<open>get\<close> reads the clock in \<open>is_expired\<close> (\<open>now1\<close>) and again in \<open>remaining_ttl_secs\<close> (\<open>now2\<close>).
\<close>

definition cache_get ::
  "unicode \<Rightarrow> 'c cache_lru \<Rightarrow> nat \<Rightarrow> nat \<Rightarrow> rstr \<Rightarrow> query_type \<Rightarrow> 'c dns_cache
     \<Rightarrow> dns_packet option \<times> 'c dns_cache" where
  "cache_get U L now1 now2 domain qtype c =
     (let key = cache_key U domain qtype; (found, st) = lru_get L key (store c) in
      case found of
        Some entry \<Rightarrow>
          (if is_expired now1 entry
           then (None, c\<lparr>store := lru_pop L key st,
             stats := (stats c)\<lparr>expirations := expirations (stats c) + 1,
                                misses := misses (stats c) + 1\<rparr>\<rparr>)
           else
             (let remaining_ttl = remaining_ttl_secs now2 entry;
                  response = (cr_packet entry)
                    \<lparr>answers := map (\<lambda>a. a\<lparr>rr_ttl := remaining_ttl\<rparr>) (answers (cr_packet entry))\<rparr>
              in (Some response, c\<lparr>store := st, stats := (stats c)\<lparr>hits := hits (stats c) + 1\<rparr>\<rparr>)))
      | None \<Rightarrow>
          (None, c\<lparr>store := st, stats := (stats c)\<lparr>misses := misses (stats c) + 1\<rparr>\<rparr>))"

text \<open>\<open>iter().map(|ans| ans.ttl).min().unwrap_or(300) as u64\<close>.\<close>

definition raw_ttl :: "dns_packet \<Rightarrow> nat" where
  "raw_ttl p = (case map (\<lambda>a. unat (rr_ttl a)) (answers p) of [] \<Rightarrow> 300 | t # ts \<Rightarrow> fold min ts t)"

definition cache_insert ::
  "unicode \<Rightarrow> 'c cache_lru \<Rightarrow> nat \<Rightarrow> rstr \<Rightarrow> query_type \<Rightarrow> dns_packet \<Rightarrow> 'c dns_cache
     \<Rightarrow> (dns_error, 'c dns_cache) outcome" where
  "cache_insert U L now domain qtype packet c =
     (let key = cache_key U domain qtype in
      or_panic (clamp (from_secs (raw_ttl packet)) (min_ttl c) (max_ttl c)) (\<lambda>effective_ttl.
      let cached = \<lparr>cr_packet = packet, cr_query_type = qtype, cr_created_at = now,
                    cr_ttl = effective_ttl\<rparr>;
          c = (if lru_len L (store c) = lru_cap L (store c)
               then c\<lparr>stats := (stats c)\<lparr>evictions := evictions (stats c) + 1\<rparr>\<rparr> else c)
      in Ok (c\<lparr>store := lru_put L key cached (store c)\<rparr>)))"

definition stats_of :: "'c dns_cache \<Rightarrow> cache_stats" where
  "stats_of c = stats c"

definition cache_len :: "'c cache_lru \<Rightarrow> 'c dns_cache \<Rightarrow> nat" where
  "cache_len L c = lru_len L (store c)"

definition cache_is_empty :: "'c cache_lru \<Rightarrow> 'c dns_cache \<Rightarrow> bool" where
  "cache_is_empty L c = lru_is_empty L (store c)"

definition cache_clear :: "'c cache_lru \<Rightarrow> 'c dns_cache \<Rightarrow> 'c dns_cache" where
  "cache_clear L c = c\<lparr>store := lru_clear L (store c)\<rparr>"

section \<open>Histories\<close>

text \<open>What a cache is asked to do over time.\<close>

datatype cache_op =
    CGet nat nat rstr query_type
  | CInsert nat rstr query_type dns_packet
  | CClear

fun cache_step ::
  "unicode \<Rightarrow> 'c cache_lru \<Rightarrow> cache_op \<Rightarrow> 'c dns_cache \<Rightarrow> (dns_error, 'c dns_cache) outcome" where
  "cache_step U L (CGet t1 t2 d q) c = Ok (snd (cache_get U L t1 t2 d q c))"
| "cache_step U L (CInsert t d q p) c = cache_insert U L t d q p c"
| "cache_step U L CClear c = Ok (cache_clear L c)"

fun cache_run ::
  "unicode \<Rightarrow> 'c cache_lru \<Rightarrow> cache_op list \<Rightarrow> 'c dns_cache \<Rightarrow> (dns_error, 'c dns_cache) outcome" where
  "cache_run U L [] c = Ok c"
| "cache_run U L (x # xs) c = obind (cache_step U L x c) (cache_run U L xs)"

fun is_get :: "cache_op \<Rightarrow> bool" where
  "is_get (CGet _ _ _ _) = True"
| "is_get _ = False"

section \<open>Specification\<close>

definition entry_ok :: "nat \<Rightarrow> nat \<Rightarrow> cache_key \<times> cached_response \<Rightarrow> bool" where
  "entry_ok lo hi e \<longleftrightarrow>
     lo \<le> cr_ttl (snd e) \<and> cr_ttl (snd e) \<le> hi \<and> cr_query_type (snd e) = snd (fst e)"

definition cache_inv ::
  "('c \<Rightarrow> (cache_key \<times> cached_response) list) \<Rightarrow> ('c \<Rightarrow> bool) \<Rightarrow> 'c dns_cache \<Rightarrow> bool" where
  "cache_inv entries valid c \<longleftrightarrow> valid (store c) \<and> min_ttl c \<le> max_ttl c
     \<and> (\<forall>e \<in> set (entries (store c)). entry_ok (min_ttl c) (max_ttl c) e)"

definition cache_map ::
  "('c \<Rightarrow> (cache_key \<times> cached_response) list) \<Rightarrow> 'c dns_cache \<Rightarrow> cache_key \<rightharpoonup> cached_response" where
  "cache_map entries c = map_of (entries (store c))"

text \<open>
  The abstract cache: an unbounded map that keeps the latest response inserted for a key, and
  forgets only when cleared.
\<close>

definition new_entry :: "nat \<Rightarrow> nat \<Rightarrow> nat \<Rightarrow> query_type \<Rightarrow> dns_packet \<Rightarrow> cached_response" where
  "new_entry lo hi t q p = \<lparr>cr_packet = p, cr_query_type = q, cr_created_at = t,
     cr_ttl = max lo (min hi (from_secs (raw_ttl p)))\<rparr>"

fun spec_step ::
  "unicode \<Rightarrow> nat \<Rightarrow> nat \<Rightarrow> cache_op \<Rightarrow> (cache_key \<rightharpoonup> cached_response) \<Rightarrow> (cache_key \<rightharpoonup> cached_response)" where
  "spec_step U lo hi (CGet _ _ _ _) M = M"
| "spec_step U lo hi (CInsert t d q p) M = M(cache_key U d q \<mapsto> new_entry lo hi t q p)"
| "spec_step U lo hi CClear M = Map.empty"

definition served :: "u32 \<Rightarrow> dns_packet \<Rightarrow> dns_packet" where
  "served ttl p = p\<lparr>answers := map (\<lambda>a. a\<lparr>rr_ttl := ttl\<rparr>) (answers p)\<rparr>"

section \<open>Lemmas\<close>

lemma clamp_eq: "lo \<le> hi \<Longrightarrow> clamp x lo hi = Some (max lo (min hi x))"
  by (auto simp: clamp_def)

lemma raw_ttl_le: "a \<in> set (answers p) \<Longrightarrow> raw_ttl p \<le> unat (rr_ttl a)"
proof -
  assume a: "a \<in> set (answers p)"
  then obtain t ts where ts: "map (\<lambda>a. unat (rr_ttl a)) (answers p) = t # ts"
    by (cases "answers p") auto
  have "unat (rr_ttl a) \<in> set (t # ts)"
    using a unfolding ts [symmetric] by simp
  then have "Min (set (t # ts)) \<le> unat (rr_ttl a)" by (intro Min_le) simp_all
  then show ?thesis
    using ts by (simp only: raw_ttl_def list.case Min.set_eq_fold)
qed

lemma new_entry_ok: "lo \<le> hi \<Longrightarrow> entry_ok lo hi (cache_key U d q, new_entry lo hi t q p)"
  by (auto simp: entry_ok_def new_entry_def cache_key_def)

locale response_store = lru_store L entries valid
  for L :: "'c cache_lru"
    and entries :: "'c \<Rightarrow> (cache_key \<times> cached_response) list"
    and valid :: "'c \<Rightarrow> bool"
begin

lemma cache_new_inv [keeps]:
  assumes "lo \<le> hi"
  shows "cache_inv entries valid (cache_new L n lo hi)"
    "cache_map entries (cache_new L n lo hi) = Map.empty"
    "lru_cap L (store (cache_new L n lo hi)) = (if n = 0 then 1024 else n)"
  using assms by (simp_all add: cache_inv_def cache_map_def cache_new_def from_secs_def new Let_def)

text \<open>\<open>get\<close> by cases: nothing cached, an expired entry, a live entry.\<close>

lemma cache_get_cases:
  assumes "cache_inv entries valid c"
  shows "cache_get U L t1 t2 d q c =
    (let k = cache_key U d q; st = snd (lru_get L k (store c)) in
     case cache_map entries c k of
       None \<Rightarrow> (None, c\<lparr>store := st, stats := (stats c)\<lparr>misses := misses (stats c) + 1\<rparr>\<rparr>)
     | Some e \<Rightarrow>
         if is_expired t1 e
         then (None, c\<lparr>store := lru_pop L k st,
            stats := (stats c)\<lparr>expirations := expirations (stats c) + 1,
                               misses := misses (stats c) + 1\<rparr>\<rparr>)
         else (Some (served (remaining_ttl_secs t2 e) (cr_packet e)),
            c\<lparr>store := st, stats := (stats c)\<lparr>hits := hits (stats c) + 1\<rparr>\<rparr>))"
proof -
  obtain f st where g: "lru_get L (cache_key U d q) (store c) = (f, st)" by fastforce
  then have "f = cache_map entries c (cache_key U d q)"
    using get(1) [of "store c" "cache_key U d q"] assms by (simp add: cache_inv_def cache_map_def)
  with g show ?thesis
    by (simp add: cache_get_def Let_def served_def split: option.split)
qed

lemma cache_get_result:
  assumes "cache_inv entries valid c"
  shows "fst (cache_get U L t1 t2 d q c) =
    (case cache_map entries c (cache_key U d q) of
       None \<Rightarrow> None
     | Some e \<Rightarrow> if is_expired t1 e then None
         else Some (served (remaining_ttl_secs t2 e) (cr_packet e)))"
  by (simp add: cache_get_cases [OF assms] Let_def split: option.split)

lemma cache_get_map:
  assumes "cache_inv entries valid c"
  shows "cache_map entries (snd (cache_get U L t1 t2 d q c)) =
    (case cache_map entries c (cache_key U d q) of
       None \<Rightarrow> cache_map entries c
     | Some e \<Rightarrow> if is_expired t1 e then (cache_map entries c)(cache_key U d q := None)
         else cache_map entries c)"
  using assms
  by (simp add: cache_get_cases [OF assms] Let_def cache_map_def cache_inv_def get pop
      map_of_del_key split: option.split)

lemma cache_get_inv [keeps]:
  assumes "cache_inv entries valid c"
  shows "cache_inv entries valid (snd (cache_get U L t1 t2 d q c))"
    "min_ttl (snd (cache_get U L t1 t2 d q c)) = min_ttl c"
    "max_ttl (snd (cache_get U L t1 t2 d q c)) = max_ttl c"
    "lru_cap L (store (snd (cache_get U L t1 t2 d q c))) = lru_cap L (store c)"
proof -
  let ?k = "cache_key U d q"
  have v: "valid (store c)" using assms by (simp add: cache_inv_def)
  have same: "set (entries (snd (lru_get L ?k (store c)))) = set (entries (store c))"
    by (rule set_entries(1) [OF v])
  then have sub: "set (entries (lru_pop L ?k (snd (lru_get L ?k (store c))))) \<subseteq> set (entries (store c))"
    using set_entries(2) [OF get(2) [OF v], of ?k ?k] by simp
  have "cache_inv entries valid (c\<lparr>store := snd (lru_get L ?k (store c)), stats := z\<rparr>)"
    "cache_inv entries valid (c\<lparr>store := lru_pop L ?k (snd (lru_get L ?k (store c))), stats := z\<rparr>)" for z
    using assms subsetD [OF sub] unfolding cache_inv_def by (simp_all add: same get(2) pop(1))
  then show "cache_inv entries valid (snd (cache_get U L t1 t2 d q c))"
    by (simp add: cache_get_cases [OF assms] Let_def split: option.split)
  show "min_ttl (snd (cache_get U L t1 t2 d q c)) = min_ttl c"
    "max_ttl (snd (cache_get U L t1 t2 d q c)) = max_ttl c"
    "lru_cap L (store (snd (cache_get U L t1 t2 d q c))) = lru_cap L (store c)"
    by (simp_all add: cache_get_cases [OF assms] Let_def v get pop split: option.split)
qed

lemma cache_insert_eq:
  assumes "cache_inv entries valid c"
  shows "cache_insert U L t d q p c =
    Ok (c\<lparr>store := lru_put L (cache_key U d q) (new_entry (min_ttl c) (max_ttl c) t q p) (store c),
          stats := (if length (entries (store c)) = lru_cap L (store c)
             then (stats c)\<lparr>evictions := evictions (stats c) + 1\<rparr> else stats c)\<rparr>)"
  using assms
  by (simp add: cache_insert_def cache_inv_def clamp_eq new_entry_def Let_def len)

lemma cache_insert_inv [keeps]:
  assumes "cache_inv entries valid c" "cache_insert U L t d q p c = Ok c'"
  shows "cache_inv entries valid c'" "min_ttl c' = min_ttl c" "max_ttl c' = max_ttl c"
    "lru_cap L (store c') = lru_cap L (store c)"
proof -
  have v: "valid (store c)" using assms by (simp add: cache_inv_def)
  have "\<forall>e \<in> set (entries (lru_put L (cache_key U d q)
      (new_entry (min_ttl c) (max_ttl c) t q p) (store c))). entry_ok (min_ttl c) (max_ttl c) e"
    using assms(1) subsetD [OF set_entries(3) [OF v, of "cache_key U d q"]] new_entry_ok
    unfolding cache_inv_def by blast
  then show "cache_inv entries valid c'"
    using assms by (auto simp: cache_insert_eq cache_inv_def put(1))
  show "min_ttl c' = min_ttl c" "max_ttl c' = max_ttl c"
    "lru_cap L (store c') = lru_cap L (store c)"
    using assms v by (auto simp: cache_insert_eq put)
qed

lemma cache_insert_map:
  assumes "cache_inv entries valid c" "cache_insert U L t d q p c = Ok c'"
  shows "cache_map entries c' (cache_key U d q) = Some (new_entry (min_ttl c) (max_ttl c) t q p)"
    "cache_map entries c' \<subseteq>\<^sub>m
       (cache_map entries c)(cache_key U d q \<mapsto> new_entry (min_ttl c) (max_ttl c) t q p)"
proof -
  have v: "valid (store c)" using assms by (simp add: cache_inv_def)
  show "cache_map entries c' (cache_key U d q) = Some (new_entry (min_ttl c) (max_ttl c) t q p)"
    "cache_map entries c' \<subseteq>\<^sub>m
       (cache_map entries c)(cache_key U d q \<mapsto> new_entry (min_ttl c) (max_ttl c) t q p)"
    using assms content_put_same [OF v, of "cache_key U d q"] content_put_le [OF v, of "cache_key U d q"]
    by (auto simp: cache_insert_eq cache_map_def content_def)
qed

lemma cache_clear_inv [keeps]:
  assumes "cache_inv entries valid c"
  shows "cache_inv entries valid (cache_clear L c)"
    "cache_map entries (cache_clear L c) = Map.empty"
    "min_ttl (cache_clear L c) = min_ttl c" "max_ttl (cache_clear L c) = max_ttl c"
    "lru_cap L (store (cache_clear L c)) = lru_cap L (store c)"
  using assms by (simp_all add: cache_inv_def cache_clear_def cache_map_def clear)

text \<open>One step of a history.\<close>

lemma cache_step_ok:
  assumes "cache_inv entries valid c"
  shows "\<exists>c'. cache_step U L x c = Ok c'"
  using assms by (cases x) (simp_all add: cache_insert_eq)

lemma cache_step_inv [keeps]:
  assumes "cache_inv entries valid c" "cache_step U L x c = Ok c'"
  shows "cache_inv entries valid c'" "min_ttl c' = min_ttl c" "max_ttl c' = max_ttl c"
    "lru_cap L (store c') = lru_cap L (store c)"
  using assms
  by (cases x; auto simp: cache_get_inv cache_clear_inv dest: cache_insert_inv)+

lemma cache_step_simulates:
  assumes "cache_inv entries valid c" "cache_step U L x c = Ok c'"
    and "cache_map entries c \<subseteq>\<^sub>m M"
  shows "cache_map entries c' \<subseteq>\<^sub>m spec_step U (min_ttl c) (max_ttl c) x M"
proof (cases x)
  case (CGet t1 t2 d q)
  have "cache_map entries c' \<subseteq>\<^sub>m cache_map entries c"
    using assms CGet
    by (auto simp: cache_get_map map_le_def split: option.splits if_splits)
  then show ?thesis using assms(3) CGet by (auto intro: map_le_trans)
next
  case (CInsert t d q p)
  then show ?thesis
    using assms cache_insert_map(2) [OF assms(1), of U t d q p c']
    by (auto simp: map_le_def split: if_splits) (metis fun_upd_apply domI)+
next
  case CClear
  then show ?thesis using assms by (auto simp: cache_clear_inv)
qed

lemma cache_step_counts:
  assumes "cache_inv entries valid c" "cache_step U L x c = Ok c'"
  shows "hits (stats c') + misses (stats c') =
    hits (stats c) + misses (stats c) + (if is_get x then 1 else 0)"
  using assms
  by (cases x)
    (auto simp: cache_get_cases cache_insert_eq cache_clear_def Let_def split: option.splits if_splits)

text \<open>Whole histories.\<close>

lemma cache_run_ok:
  assumes "cache_inv entries valid c"
  shows "\<exists>c'. cache_run U L xs c = Ok c' \<and> cache_inv entries valid c'
    \<and> min_ttl c' = min_ttl c \<and> max_ttl c' = max_ttl c
    \<and> lru_cap L (store c') = lru_cap L (store c)"
  using assms
proof (induction xs arbitrary: c)
  case (Cons x xs)
  obtain c1 where c1: "cache_step U L x c = Ok c1" using cache_step_ok [OF Cons.prems] by blast
  note k = cache_step_inv [OF Cons.prems c1]
  show ?case using Cons.IH [OF k(1)] k c1 by auto
qed simp

lemma cache_run_simulates:
  "cache_inv entries valid c \<Longrightarrow> cache_map entries c \<subseteq>\<^sub>m M \<Longrightarrow> cache_run U L xs c = Ok c' \<Longrightarrow>
    cache_map entries c' \<subseteq>\<^sub>m fold (spec_step U (min_ttl c) (max_ttl c)) xs M"
proof (induction xs arbitrary: c M)
  case (Cons x xs)
  then obtain c1 where c1: "cache_step U L x c = Ok c1" "cache_run U L xs c1 = Ok c'"
    by (auto simp: obind_eq_Ok)
  note k = cache_step_inv [OF Cons.prems(1) c1(1)]
  note sim = cache_step_simulates [OF Cons.prems(1) c1(1) Cons.prems(2)]
  show ?case using Cons.IH [OF k(1) sim c1(2)] k by simp
qed simp

lemma cache_run_counts:
  "cache_inv entries valid c \<Longrightarrow> cache_run U L xs c = Ok c' \<Longrightarrow>
    hits (stats c') + misses (stats c') =
    hits (stats c) + misses (stats c) + word_of_nat (length (filter is_get xs))"
proof (induction xs arbitrary: c)
  case (Cons x xs)
  then obtain c1 where c1: "cache_step U L x c = Ok c1" "cache_run U L xs c1 = Ok c'"
    by (auto simp: obind_eq_Ok)
  note k = cache_step_inv [OF Cons.prems(1) c1(1)]
  show ?case
    using Cons.IH [OF k(1) c1(2)] cache_step_counts [OF Cons.prems(1) c1(1)]
    by (simp add: algebra_simps)
qed simp

text \<open>What an insertion does to the other entries.\<close>

lemma cache_insert_keeps:
  assumes "cache_inv entries valid c" "cache_insert U L t d q p c = Ok c'"
    and "length (entries (store c)) < lru_cap L (store c)
      \<or> cache_map entries c (cache_key U d q) \<noteq> None"
  shows "cache_map entries c' =
    (cache_map entries c)(cache_key U d q \<mapsto> new_entry (min_ttl c) (max_ttl c) t q p)"
  using assms content_put_room [of "store c" "cache_key U d q"]
  by (auto simp: cache_insert_eq cache_map_def cache_inv_def content_def)

lemma cache_insert_evicts:
  assumes "cache_inv entries valid c" "cache_insert U L t d q p c = Ok c'"
    and "length (entries (store c)) = lru_cap L (store c)"
    and "cache_map entries c (cache_key U d q) = None"
  shows "entries (store c') =
    (cache_key U d q, new_entry (min_ttl c) (max_ttl c) t q p) # butlast (entries (store c))"
    "stats c' = (stats c)\<lparr>evictions := evictions (stats c) + 1\<rparr>"
  using assms put_evicts_last [of "store c" "cache_key U d q"]
  by (auto simp: cache_insert_eq cache_map_def cache_inv_def content_def)

lemma cache_len_bound: "cache_inv entries valid c \<Longrightarrow> cache_len L c \<le> lru_cap L (store c)"
  by (simp add: cache_inv_def cache_len_def len bounded)

text \<open>A live hit moves its entry to the front of the order of use.\<close>

lemma cache_get_front:
  assumes "cache_inv entries valid c" "fst (cache_get U L t1 t2 d q c) = Some p"
  shows "\<exists>e. cache_map entries c (cache_key U d q) = Some e \<and> \<not> is_expired t1 e
    \<and> entries (store (snd (cache_get U L t1 t2 d q c))) =
      (cache_key U d q, e) # del_key (cache_key U d q) (entries (store c))"
proof -
  have v: "valid (store c)" using assms by (simp add: cache_inv_def)
  obtain e where e: "cache_map entries c (cache_key U d q) = Some e" "\<not> is_expired t1 e"
    using assms(2) by (auto simp: cache_get_result [OF assms(1)] split: option.splits if_splits)
  with v show ?thesis
    by (simp add: cache_get_cases [OF assms(1)] Let_def get) (simp add: to_front_def cache_map_def)
qed

end

interpretation list_cache: response_store list_lru snd list_lru_valid
  by unfold_locales

section \<open>Examples\<close>

definition sample_response :: "u32 \<Rightarrow> dns_packet" where
  "sample_response ttl = sample_packet\<lparr>answers :=
     [\<lparr>rr_name = lit ''a.b'', rr_type = QT_A, rr_class = QC_IN, rr_ttl = ttl,
       rr_data = RD_A (Ipv4 192 0 2 1)\<rparr>]\<rparr>"

definition sample_cache :: "(nat \<times> (cache_key \<times> cached_response) list) dns_cache" where
  "sample_cache = cache_new list_lru 2 60 3600"

lemma sample_cache_inv: "cache_inv snd list_lru_valid sample_cache"
  unfolding sample_cache_def by (rule list_cache.cache_new_inv(1)) simp

lemma sample_insert:
  "\<exists>c'. cache_insert U list_lru t d q p sample_cache = Ok c'"
  by (simp add: list_cache.cache_insert_eq [OF sample_cache_inv])

text \<open>A full cache of two entries, used in the order \<open>x\<close>, \<open>y\<close>.\<close>

definition full_cache :: "(nat \<times> (cache_key \<times> cached_response) list) dns_cache" where
  "full_cache = sample_cache\<lparr>store := (2,
     [((lit ''x'', QT_A), new_entry (from_secs 60) (from_secs 3600) 10 QT_A (sample_response 300)),
      ((lit ''y'', QT_A), new_entry (from_secs 60) (from_secs 3600) 5 QT_A (sample_response 30))])\<rparr>"

lemma full_cache_simps [simp]:
  "min_ttl full_cache = from_secs 60" "max_ttl full_cache = from_secs 3600"
  "lru_cap list_lru (store full_cache) = 2" "length (snd (store full_cache)) = 2"
  by (simp_all add: full_cache_def sample_cache_def cache_new_def list_lru_def Let_def)

lemma full_cache_inv: "cache_inv snd list_lru_valid full_cache"
  by (simp add: cache_inv_def entry_ok_def list_lru_valid_def full_cache_def new_entry_def lit_simps)
    (simp add: sample_cache_def cache_new_def from_secs_def Let_def)

lemma full_cache_map:
  "cache_map snd full_cache = [(lit ''x'', QT_A) \<mapsto>
     new_entry (from_secs 60) (from_secs 3600) 10 QT_A (sample_response 300),
     (lit ''y'', QT_A) \<mapsto> new_entry (from_secs 60) (from_secs 3600) 5 QT_A (sample_response 30)]"
  by (auto simp: cache_map_def full_cache_def lit_simps)

lemma full_cache_keys:
  "cache_key U (lit ''X'') QT_A = (lit ''x'', QT_A)" "cache_key U (lit ''Y'') QT_A = (lit ''y'', QT_A)"
  "cache_key U (lit ''z'') QT_A = (lit ''z'', QT_A)"
  by (simp_all add: cache_key_def to_lowercase_def char_lower_def ascii_lower_def lit_simps)

lemmas key_eval = cache_key_def to_lowercase_def char_lower_def ascii_lower_def lit_simps

lemma full_cache_insert: "\<exists>c'. cache_insert U list_lru t d q p full_cache = Ok c'"
  by (simp add: list_cache.cache_insert_eq [OF full_cache_inv])

lemma full_cache_hit:
  "\<exists>r c1. cache_get U list_lru 20 20 (lit ''X'') QT_A full_cache = (Some r, c1)"
proof -
  have "raw_ttl (sample_response 300) = 300" by (simp add: raw_ttl_def sample_response_def)
  then have "\<exists>r. fst (cache_get U list_lru 20 20 (lit ''X'') QT_A full_cache) = Some r"
    by (simp add: list_cache.cache_get_result [OF full_cache_inv] key_eval full_cache_map
        is_expired_def elapsed_def new_entry_def from_secs_def)
  then show ?thesis by (metis prod.collapse)
qed

section \<open>Properties\<close>

text \<open>C4: whatever is asked of a new cache, in any order and with any clock readings, no operation
  panics, the invariant holds, the capacity is respected, and the cache implements the
  unbounded map: a response it holds for a name and type is the one inserted last for them since
  the cache was cleared, with its lifetime clamped between the two limits.\<close>

theorem cache_history_refines:
  assumes "response_store L entries valid" "lo \<le> hi"
  shows "\<exists>c. cache_run U L ops (cache_new L n lo hi) = Ok c \<and> cache_inv entries valid c
    \<and> cache_len L c \<le> (if n = 0 then 1024 else n)
    \<and> cache_map entries c \<subseteq>\<^sub>m fold (spec_step U (from_secs lo) (from_secs hi)) ops Map.empty"
proof -
  note new = response_store.cache_new_inv [OF assms, of n]
  obtain c where c: "cache_run U L ops (cache_new L n lo hi) = Ok c" "cache_inv entries valid c"
      "lru_cap L (store c) = lru_cap L (store (cache_new L n lo hi))"
    using response_store.cache_run_ok [OF assms(1) new(1), of U ops] by blast
  have "cache_map entries (cache_new L n lo hi) \<subseteq>\<^sub>m Map.empty" by (simp add: new(2))
  from response_store.cache_run_simulates [OF assms(1) new(1) this c(1)] c new(3)
    response_store.cache_len_bound [OF assms(1) c(2)]
  show ?thesis by (simp add: cache_new_def Let_def)
qed

theorem cache_history_refines_witness:
  "\<forall>U. \<exists>c. cache_run U list_lru
      [CInsert 0 (lit ''A.b'') QT_A (sample_response 300), CGet 5 6 (lit ''a.B'') QT_A, CClear,
       CInsert 7 (lit ''a.b'') QT_A (sample_response 30)] (cache_new list_lru 2 60 3600) = Ok c
    \<and> cache_len list_lru c \<le> 2"
proof
  fix U
  show "\<exists>c. cache_run U list_lru
      [CInsert 0 (lit ''A.b'') QT_A (sample_response 300), CGet 5 6 (lit ''a.B'') QT_A, CClear,
       CInsert 7 (lit ''a.b'') QT_A (sample_response 30)] (cache_new list_lru 2 60 3600) = Ok c
    \<and> cache_len list_lru c \<le> 2"
    using cache_history_refines [OF list_cache.response_store_axioms, of 60 3600 U
      "[CInsert 0 (lit ''A.b'') QT_A (sample_response 300), CGet 5 6 (lit ''a.B'') QT_A, CClear,
        CInsert 7 (lit ''a.b'') QT_A (sample_response 30)]" 2] by auto
qed

text \<open>C16: a response that was inserted for a name is served for every spelling of the name until
  its lifetime is over, and not a moment longer: the answers carry the whole seconds that are
  left, and everything else of the response is as it was inserted.\<close>

theorem cache_insert_then_get:
  assumes "response_store L entries valid" "cache_inv entries valid c"
    and "cache_insert U L t d q p c = Ok c'" "to_lowercase U d' = to_lowercase U d"
  shows "fst (cache_get U L t1 t2 d' q c') =
    (let life = max (min_ttl c) (min (max_ttl c) (from_secs (raw_ttl p))) in
     if life \<le> t1 - t then None
     else Some (served (if life \<le> t2 - t then 0 else word_of_nat (as_secs (life - (t2 - t)))) p))"
  using response_store.cache_get_result [OF assms(1)
      response_store.cache_insert_inv(1) [OF assms(1-3)], of U t1 t2 d' q]
    response_store.cache_insert_map(1) [OF assms(1-3)] assms(4)
  by (simp add: cache_key_def new_entry_def is_expired_def remaining_ttl_secs_def elapsed_def Let_def)

theorem cache_insert_then_get_witness:
  "\<forall>U. \<exists>c'. cache_insert U list_lru 0 (lit ''A.b'') QT_A (sample_response 300) sample_cache = Ok c'
    \<and> fst (cache_get U list_lru 299999999999 299999999999 (lit ''a.B'') QT_A c') =
        Some (served 0 (sample_response 300))
    \<and> fst (cache_get U list_lru 300000000000 300000000000 (lit ''a.B'') QT_A c') = None"
proof
  fix U
  have k: "to_lowercase U (lit ''a.B'') = to_lowercase U (lit ''A.b'')"
    by (simp add: to_lowercase_def char_lower_def ascii_lower_def lit_simps)
  have r: "raw_ttl (sample_response 300) = 300" by (simp add: raw_ttl_def sample_response_def)
  obtain c' where i: "cache_insert U list_lru 0 (lit ''A.b'') QT_A (sample_response 300) sample_cache = Ok c'"
    using sample_insert by blast
  note g = cache_insert_then_get [OF list_cache.response_store_axioms sample_cache_inv i k]
  show "\<exists>c'. cache_insert U list_lru 0 (lit ''A.b'') QT_A (sample_response 300) sample_cache = Ok c'
    \<and> fst (cache_get U list_lru 299999999999 299999999999 (lit ''a.B'') QT_A c') =
        Some (served 0 (sample_response 300))
    \<and> fst (cache_get U list_lru 300000000000 300000000000 (lit ''a.B'') QT_A c') = None"
    using i g [of 299999999999 299999999999] g [of 300000000000 300000000000]
    by (simp add: sample_cache_def cache_new_def from_secs_def as_secs_def r Let_def)
qed

text \<open>C17: no answer is ever served with a lifetime beyond what is left of its entry or beyond the
  upper limit, and an entry whose time is over is never served. The upper limit must fit the
  32 bits of a lifetime.\<close>

theorem cache_get_fresh:
  assumes "response_store L entries valid" "cache_inv entries valid c"
    and "max_ttl c < from_secs 4294967296" "cache_get U L t1 t2 d q c = (Some p, c')"
  shows "\<exists>e. cache_map entries c (cache_key U d q) = Some e \<and> t1 - cr_created_at e < cr_ttl e
    \<and> (\<forall>a \<in> set (answers p). from_secs (unat (rr_ttl a)) \<le> min (max_ttl c) (cr_ttl e - (t2 - cr_created_at e)))"
proof -
  obtain e where e: "cache_map entries c (cache_key U d q) = Some e" "\<not> is_expired t1 e"
      "p = served (remaining_ttl_secs t2 e) (cr_packet e)"
    using response_store.cache_get_result [OF assms(1,2), of U t1 t2 d q] assms(4)
    by (auto split: option.splits if_splits)
  from map_of_SomeD [OF e(1) [unfolded cache_map_def]]
  have hi: "cr_ttl e \<le> max_ttl c"
    using assms(2) by (auto simp: cache_inv_def entry_ok_def)
  have "from_secs (unat (remaining_ttl_secs t2 e)) \<le> cr_ttl e - (t2 - cr_created_at e)"
    using hi assms(3) mod_less_eq_dividend [of "(cr_ttl e - (t2 - cr_created_at e)) div 1000000000"]
    by (auto simp: remaining_ttl_secs_def elapsed_def from_secs_def as_secs_def Let_def unat_of_nat
        intro: order.trans [OF mult_le_mono1] div_times_less_eq_dividend)
  then show ?thesis using e hi by (auto simp: served_def is_expired_def elapsed_def)
qed

theorem cache_get_fresh_witness:
  "\<forall>U. \<exists>p c'. cache_get U list_lru 20 20 (lit ''X'') QT_A full_cache = (Some p, c')
    \<and> (\<forall>a \<in> set (answers p). from_secs (unat (rr_ttl a)) \<le> from_secs 3600)"
proof
  fix U
  have lim: "max_ttl full_cache < from_secs 4294967296" by (simp add: from_secs_def)
  obtain p c' where g: "cache_get U list_lru 20 20 (lit ''X'') QT_A full_cache = (Some p, c')"
    using full_cache_hit by blast
  from cache_get_fresh [OF list_cache.response_store_axioms full_cache_inv lim g] g
  show "\<exists>p c'. cache_get U list_lru 20 20 (lit ''X'') QT_A full_cache = (Some p, c')
    \<and> (\<forall>a \<in> set (answers p). from_secs (unat (rr_ttl a)) \<le> from_secs 3600)"
    by auto
qed


text \<open>C28: every lookup counts once, as a hit or as a miss (modulo the width of the counters).\<close>

theorem cache_lookups_counted:
  assumes "response_store L entries valid" "lo \<le> hi"
    and "cache_run U L ops (cache_new L n lo hi) = Ok c"
  shows "hits (stats c) + misses (stats c) = word_of_nat (length (filter is_get ops))"
  using response_store.cache_run_counts [OF assms(1)
      response_store.cache_new_inv(1) [OF assms(1,2)] assms(3)]
  by (simp add: cache_new_def Let_def)

theorem cache_lookups_counted_witness:
  "\<forall>U. \<exists>c. cache_run U list_lru [CGet 5 6 (lit ''x'') QT_A, CClear, CGet 7 8 (lit ''y'') QT_A]
      (cache_new list_lru 2 60 3600) = Ok c \<and> hits (stats c) + misses (stats c) = 2"
proof
  fix U
  let ?ops = "[CGet 5 6 (lit ''x'') QT_A, CClear, CGet 7 8 (lit ''y'') QT_A]"
  obtain c where c: "cache_run U list_lru ?ops (cache_new list_lru 2 60 3600) = Ok c" by simp
  have "(60 :: nat) \<le> 3600" by simp
  from cache_lookups_counted [OF list_cache.response_store_axioms this c] c
  show "\<exists>c. cache_run U list_lru ?ops (cache_new list_lru 2 60 3600) = Ok c
      \<and> hits (stats c) + misses (stats c) = 2"
    by auto
qed


text \<open>C26: an insertion that finds room, or overwrites its own key, loses nothing; one that finds no
  room drops exactly the least recently used entry and counts one eviction.\<close>

theorem cache_insert_lru:
  assumes "response_store L entries valid" "cache_inv entries valid c"
    and "cache_insert U L t d q p c = Ok c'"
  shows "if length (entries (store c)) < lru_cap L (store c)
      \<or> cache_map entries c (cache_key U d q) \<noteq> None
    then cache_map entries c' =
      (cache_map entries c)(cache_key U d q \<mapsto> new_entry (min_ttl c) (max_ttl c) t q p)
    else entries (store c') = (cache_key U d q, new_entry (min_ttl c) (max_ttl c) t q p)
        # butlast (entries (store c))
      \<and> evictions (stats c') = evictions (stats c) + 1"
proof (cases "length (entries (store c)) < lru_cap L (store c)
      \<or> cache_map entries c (cache_key U d q) \<noteq> None")
  case False
  moreover have "length (entries (store c)) \<le> lru_cap L (store c)"
    using assms(1,2) by (simp add: cache_inv_def response_store_def lru_store.bounded(2))
  ultimately have f: "length (entries (store c)) = lru_cap L (store c)"
      "cache_map entries c (cache_key U d q) = None" by auto
  show ?thesis using response_store.cache_insert_evicts [OF assms f] False by simp
qed (use response_store.cache_insert_keeps [OF assms] in simp)

theorem cache_insert_lru_witness:
  "\<forall>U p. \<exists>c'. cache_insert U list_lru 30 (lit ''z'') QT_A p full_cache = Ok c'
    \<and> map fst (snd (store c')) = [(lit ''z'', QT_A), (lit ''x'', QT_A)]"
proof (intro allI)
  fix U p
  obtain c' where i: "cache_insert U list_lru 30 (lit ''z'') QT_A p full_cache = Ok c'"
    using full_cache_insert by blast
  have no: "cache_map snd full_cache (cache_key U (lit ''z'') QT_A) = None"
    by (simp add: key_eval full_cache_map)
  have "butlast (snd (store full_cache)) = [((lit ''x'', QT_A),
      new_entry (from_secs 60) (from_secs 3600) 10 QT_A (sample_response 300))]"
    by (simp add: full_cache_def)
  with cache_insert_lru [OF list_cache.response_store_axioms full_cache_inv i] i no
  show "\<exists>c'. cache_insert U list_lru 30 (lit ''z'') QT_A p full_cache = Ok c'
    \<and> map fst (snd (store c')) = [(lit ''z'', QT_A), (lit ''x'', QT_A)]"
    by (simp add: full_cache_keys)
qed


text \<open>C27: the entry that was just looked up survives the next insertion, however full the cache is,
  if it has room for two: looking up marks it as used.\<close>

theorem cache_hit_survives_insert:
  assumes "response_store L entries valid" "cache_inv entries valid c"
    and "2 \<le> lru_cap L (store c)" "cache_get U L t1 t2 d q c = (Some r, c1)"
    and "cache_insert U L t d' q' p c1 = Ok c'" "cache_key U d' q' \<noteq> cache_key U d q"
  shows "cache_map entries c' (cache_key U d q) = cache_map entries c (cache_key U d q)"
proof -
  note inv1 = response_store.cache_get_inv [OF assms(1,2), of U t1 t2 d q, unfolded assms(4) snd_conv]
  obtain e rest where e: "cache_map entries c (cache_key U d q) = Some e"
      "entries (store c1) = (cache_key U d q, e) # rest"
    using response_store.cache_get_front [OF assms(1,2), of U t1 t2 d q r] assms(4) by auto
  then have m: "cache_map entries c1 (cache_key U d q) = Some e" by (simp add: cache_map_def)
  show ?thesis
  proof (cases "length (entries (store c1)) < lru_cap L (store c1)
      \<or> cache_map entries c1 (cache_key U d' q') \<noteq> None")
    case True
    from response_store.cache_insert_keeps [OF assms(1) inv1(1) assms(5) True] m e(1) assms(6)
    show ?thesis by simp
  next
    case False
    moreover have "length (entries (store c1)) \<le> lru_cap L (store c1)"
      using assms(1) inv1(1) by (simp add: cache_inv_def response_store_def lru_store.bounded(2))
    ultimately have f: "length (entries (store c1)) = lru_cap L (store c1)"
        "cache_map entries c1 (cache_key U d' q') = None" by auto
    then have "rest \<noteq> []" using assms(3) inv1(4) e(2) by auto
    then show ?thesis
      using response_store.cache_insert_evicts(1) [OF assms(1) inv1(1) assms(5) f] e assms(6)
      by (simp add: cache_map_def)
  qed
qed

theorem cache_hit_survives_insert_witness:
  "\<forall>U p. \<exists>r c1 c'. cache_get U list_lru 20 20 (lit ''X'') QT_A full_cache = (Some r, c1)
    \<and> cache_insert U list_lru 30 (lit ''z'') QT_A p c1 = Ok c'
    \<and> cache_map snd c' (lit ''x'', QT_A) = cache_map snd full_cache (lit ''x'', QT_A)"
proof (intro allI)
  fix U p
  obtain r c1 where g: "cache_get U list_lru 20 20 (lit ''X'') QT_A full_cache = (Some r, c1)"
    using full_cache_hit by blast
  have "cache_inv snd list_lru_valid c1"
    using list_cache.cache_get_inv(1) [OF full_cache_inv, of U 20 20 "lit ''X''" QT_A] g by simp
  then obtain c' where i: "cache_insert U list_lru 30 (lit ''z'') QT_A p c1 = Ok c'"
    by (simp add: list_cache.cache_insert_eq)
  have two: "2 \<le> lru_cap list_lru (store full_cache)" by simp
  have ne: "cache_key U (lit ''z'') QT_A \<noteq> cache_key U (lit ''X'') QT_A"
    by (simp add: key_eval)
  from cache_hit_survives_insert [OF list_cache.response_store_axioms full_cache_inv two g i ne] g i
  show "\<exists>r c1 c'. cache_get U list_lru 20 20 (lit ''X'') QT_A full_cache = (Some r, c1)
    \<and> cache_insert U list_lru 30 (lit ''z'') QT_A p c1 = Ok c'
    \<and> cache_map snd c' (lit ''x'', QT_A) = cache_map snd full_cache (lit ''x'', QT_A)"
    by (auto simp: full_cache_keys)
qed


text \<open>C40: in a full cache, overwriting an entry counts as an eviction although every key stays.\<close>

theorem overwriting_counts_as_eviction:
  assumes "response_store L entries valid" "cache_inv entries valid c"
    and "length (entries (store c)) = lru_cap L (store c)"
    and "cache_map entries c (cache_key U d q) = Some e"
  shows "\<exists>c'. cache_insert U L t d q p c = Ok c' \<and> dom (cache_map entries c') = dom (cache_map entries c)
    \<and> evictions (stats c') = evictions (stats c) + 1"
  using response_store.cache_insert_eq [OF assms(1,2), of U t d q p] assms(3,4)
    response_store.cache_insert_keeps [OF assms(1,2), of U t d q p]
  by (auto simp: insert_absorb domI)

theorem overwriting_counts_as_eviction_witness:
  "\<forall>U p. \<exists>c'. cache_insert U list_lru 30 (lit ''Y'') QT_A p full_cache = Ok c'
    \<and> evictions (stats c') = 1"
proof (intro allI)
  fix U p
  have "cache_map snd full_cache (cache_key U (lit ''Y'') QT_A) =
      Some (new_entry (from_secs 60) (from_secs 3600) 5 QT_A (sample_response 30))"
    by (simp add: full_cache_keys full_cache_map)
  from overwriting_counts_as_eviction [OF list_cache.response_store_axioms full_cache_inv _ this,
      of 30 p]
  show "\<exists>c'. cache_insert U list_lru 30 (lit ''Y'') QT_A p full_cache = Ok c' \<and> evictions (stats c') = 1"
    by (auto simp: full_cache_def sample_cache_def cache_new_def Let_def list_lru_def)
qed

end
