(* ===== verification/SockAddr.thy ===== *)
theory SockAddr
  imports ResourceRecord
begin

text \<open>
  Socket addresses as the standard library parses them (\<open>str::parse::<SocketAddr>\<close>), which
  the configuration relies on: \<open>a.b.c.d:port\<close> and \<open>[v6%scope]:port\<close>; and how it prints the
  former. A reader returns the value and the characters left, or \<open>None\<close> without consuming
  anything.
\<close>

section \<open>Addresses\<close>

datatype socket_addr =
    SockV4 ipv4_addr u16
  | SockV6 ipv6_addr (scope_id: u32) u16

section \<open>Readers\<close>

definition digit_value :: "nat \<Rightarrow> rchar \<Rightarrow> nat option" where
  "digit_value radix c =
     (let v = (if 48 \<le> c \<and> c \<le> 57 then Some (c - 48)
               else if 97 \<le> c \<and> c \<le> 102 then Some (c - 87)
               else if 65 \<le> c \<and> c \<le> 70 then Some (c - 55) else None)
      in case v of None \<Rightarrow> None | Some d \<Rightarrow> if d < radix then Some d else None)"

text \<open>
  \<open>read_number\<close>: at most \<open>max_digits\<close> digits if a limit is given, no redundant leading zero
  unless allowed, and a value below \<open>bound\<close> (the width of the result).
\<close>

definition read_number :: "nat \<Rightarrow> nat option \<Rightarrow> bool \<Rightarrow> nat \<Rightarrow> rstr \<Rightarrow> (nat \<times> rstr) option" where
  "read_number radix max_digits allow_zero_prefix bound s =
     (let ds = takeWhile (\<lambda>c. digit_value radix c \<noteq> None) s;
          v = fold (\<lambda>c acc. acc * radix + the (digit_value radix c)) ds 0
      in if ds = [] \<or> (case max_digits of None \<Rightarrow> False | Some m \<Rightarrow> m < length ds)
           \<or> (\<not> allow_zero_prefix \<and> hd ds = 48 \<and> 1 < length ds) \<or> bound \<le> v
         then None else Some (v, drop (length ds) s))"

definition read_given_char :: "rchar \<Rightarrow> rstr \<Rightarrow> rstr option" where
  "read_given_char d s = (case s of [] \<Rightarrow> None | c # r \<Rightarrow> if c = d then Some r else None)"

text \<open>\<open>read_separator\<close>: the separator before every item but the first.\<close>

definition read_sep :: "rchar \<Rightarrow> nat \<Rightarrow> (rstr \<Rightarrow> ('a \<times> rstr) option) \<Rightarrow> rstr \<Rightarrow> ('a \<times> rstr) option" where
  "read_sep d i p s =
     (if i = 0 then p s else case read_given_char d s of None \<Rightarrow> None | Some r \<Rightarrow> p r)"

definition read_octet :: "rstr \<Rightarrow> (nat \<times> rstr) option" where
  "read_octet = read_number 10 (Some 3) False 256"

text \<open>The loop over the four slots, \<open>for (i, slot) in groups.iter_mut().enumerate()\<close>.\<close>

fun read_octets :: "nat list \<Rightarrow> rstr \<Rightarrow> (u8 list \<times> rstr) option" where
  "read_octets [] s = Some ([], s)"
| "read_octets (i # slots) s =
     (case read_sep 46 i read_octet s of
        None \<Rightarrow> None
      | Some (v, r) \<Rightarrow> map_option (\<lambda>(vs, r'). (word_of_nat v # vs, r')) (read_octets slots r))"

definition read_ipv4 :: "rstr \<Rightarrow> (ipv4_addr \<times> rstr) option" where
  "read_ipv4 s = map_option (\<lambda>(o4, r). (ipv4_from o4, r)) (read_octets [0, 1, 2, 3] s)"

definition read_port :: "rstr \<Rightarrow> (u16 \<times> rstr) option" where
  "read_port s =
     (case read_given_char 58 s of
        None \<Rightarrow> None
      | Some r \<Rightarrow> map_option (\<lambda>(v, r'). (word_of_nat v, r')) (read_number 10 None True 65536 r))"

text \<open>
  \<open>read_groups\<close> over the slots \<open>0..limit\<close>: the groups read, whether they end in an embedded
  IPv4 address, and the rest.
\<close>

fun read_groups :: "nat \<Rightarrow> nat list \<Rightarrow> rstr \<Rightarrow> u16 list \<times> bool \<times> rstr" where
  "read_groups limit [] s = ([], False, s)"
| "read_groups limit (i # slots) s =
     (case (if i < limit - 1 then read_sep 58 i read_ipv4 s else None) of
        Some (v4, r) \<Rightarrow>
          (let q = ipv4_octets v4 in ([be16 (q ! 0) (q ! 1), be16 (q ! 2) (q ! 3)], True, r))
      | None \<Rightarrow>
          (case read_sep 58 i (read_number 16 (Some 4) True 65536) s of
             None \<Rightarrow> ([], False, s)
           | Some (g, r) \<Rightarrow>
               (let (gs, v4, r') = read_groups limit slots r in (word_of_nat g # gs, v4, r'))))"

definition ipv6_of_groups :: "u16 list \<Rightarrow> ipv6_addr" where
  "ipv6_of_groups gs = Ipv6 (concat (map bytes16 gs))"

definition read_ipv6 :: "rstr \<Rightarrow> (ipv6_addr \<times> rstr) option" where
  "read_ipv6 s =
     (let (hd_groups, hd_v4, r) = read_groups 8 [0..<8] s in
      if length hd_groups = 8 then Some (ipv6_of_groups hd_groups, r)
      else if hd_v4 then None
      else case Option.bind (read_given_char 58 r) (read_given_char 58) of
        None \<Rightarrow> None
      | Some r1 \<Rightarrow>
          (let limit = 8 - (length hd_groups + 1);
               (tl_groups, _, r2) = read_groups limit [0..<limit] r1
           in Some (ipv6_of_groups
                (hd_groups @ replicate (8 - length hd_groups - length tl_groups) 0 @ tl_groups), r2)))"

definition read_scope :: "rstr \<Rightarrow> u32 \<times> rstr" where
  "read_scope s =
     (case Option.bind (read_given_char 37 s) (read_number 10 None True 4294967296) of
        None \<Rightarrow> (0, s)
      | Some (v, r) \<Rightarrow> (word_of_nat v, r))"

definition read_socket_addr :: "rstr \<Rightarrow> (socket_addr \<times> rstr) option" where
  "read_socket_addr s =
     (case Option.bind (read_ipv4 s) (\<lambda>(ip, r). map_option (\<lambda>(p, r'). (SockV4 ip p, r')) (read_port r)) of
        Some x \<Rightarrow> Some x
      | None \<Rightarrow>
          Option.bind (read_given_char 91 s) (\<lambda>r0.
          Option.bind (read_ipv6 r0) (\<lambda>(ip, r1).
          let (scope, r2) = read_scope r1 in
          Option.bind (read_given_char 93 r2) (\<lambda>r3.
          map_option (\<lambda>(p, r4). (SockV6 ip scope p, r4)) (read_port r3)))))"

definition parse_socket_addr :: "rstr \<Rightarrow> socket_addr option" where
  "parse_socket_addr s =
     (case read_socket_addr s of Some (a, []) \<Rightarrow> Some a | _ \<Rightarrow> None)"

section \<open>Lemmas\<close>

declare lit_simps [simp]

lemmas addr_readers = read_octet_def read_sep_def read_given_char_def read_number_def
  digit_value_def read_port_def ipv4_from_def

lemma parse_v4_example:
  "parse_socket_addr (lit ''127.0.0.1:5335'') = Some (SockV4 (Ipv4 127 0 0 1) 5335)"
proof -
  have "read_ipv4 (lit ''127.0.0.1:5335'') = Some (Ipv4 127 0 0 1, lit '':5335'')"
    by (simp add: read_ipv4_def addr_readers)
  moreover have "read_port (lit '':5335'') = Some (5335, [])"
    by (simp add: addr_readers)
  ultimately show ?thesis
    by (simp add: parse_socket_addr_def read_socket_addr_def del: lit_simps)
qed

section \<open>Printed addresses\<close>

text \<open>Numbers and IPv4 socket addresses as the standard library prints them.\<close>

fun digits :: "nat \<Rightarrow> rstr" where
  "digits n = (if n < 10 then [48 + n] else digits (n div 10) @ [48 + n mod 10])"

declare digits.simps [simp del]

definition v4_text :: "ipv4_addr \<Rightarrow> u16 \<Rightarrow> rstr" where
  "v4_text ip port = join_char 46 (map (\<lambda>o1. digits (unat o1)) (ipv4_octets ip)) @ 58 # digits (unat port)"

abbreviation is_digit :: "rchar \<Rightarrow> bool" where
  "is_digit c \<equiv> digit_value 10 c \<noteq> None"

lemma digit_value_ten [simp]: "d < 10 \<Longrightarrow> digit_value 10 (48 + d) = Some d"
  by (simp add: digit_value_def Let_def)

lemma digits_facts:
  "digits n \<noteq> []" "list_all is_digit (digits n)" "10 \<le> n \<Longrightarrow> hd (digits n) \<noteq> 48"
  "n < 10 ^ k \<Longrightarrow> 0 < k \<Longrightarrow> length (digits n) \<le> k"
  "fold (\<lambda>c acc. acc * 10 + the (digit_value 10 c)) (digits n) 0 = n"
proof (induction n arbitrary: k rule: digits.induct)
  case (1 n)
  { case 1 show ?case by (subst digits.simps) simp }
  { case 2 show ?case using 1(2) by (subst digits.simps) (auto simp: list_all_iff) }
  { case 3
    show ?case
    proof (cases "n div 10 < 10")
      case True
      with 3 show ?thesis by (subst digits.simps, subst digits.simps) simp
    next
      case False
      then show ?thesis using 3 1(1,3) by (subst digits.simps) simp
    qed }
  { case 4
    show ?case
    proof (cases "n < 10")
      case False
      with 4 obtain j where j: "k = Suc j" "0 < j" by (cases k; cases "k - 1") auto
      then have "n div 10 < 10 ^ j" using 4(1) by (simp add: less_mult_imp_div_less mult.commute)
      with 1(4) [OF False _ j(2)] show ?thesis using False j(1) by (subst digits.simps) simp
    qed (use 4 in \<open>subst digits.simps, simp\<close>) }
  { case 5 show ?case using 1(5) by (subst digits.simps) auto }
qed

text \<open>What is printed is read back, up to the first character that is not a digit.\<close>

lemma read_number_digits:
  assumes "rest = [] \<or> \<not> is_digit (hd rest)" "n < bound" "case m of None \<Rightarrow> True | Some k \<Rightarrow> length (digits n) \<le> k"
  shows "read_number 10 m zp bound (digits n @ rest) = Some (n, rest)"
proof -
  have ds: "takeWhile is_digit (digits n @ rest) = digits n"
    using digits_facts(2) [of n] assms(1) by (cases rest) (auto simp: list_all_iff takeWhile_append)
  have zero: "\<not> (hd (digits n) = 48 \<and> 1 < length (digits n))"
    using digits_facts(3) [of n] by (cases "n < 10") (simp_all add: digits.simps [of n])
  have len: "\<not> (case m of None \<Rightarrow> False | Some k \<Rightarrow> k < length (digits n))"
    using assms(3) by (cases m) simp_all
  have "drop (length (digits n)) (digits n @ rest) = rest" by simp
  then show ?thesis
    unfolding read_number_def Let_def ds digits_facts(5)
    using zero len assms(2) digits_facts(1) [of n] by (metis leD)
qed

lemma read_octet_digits:
  "rest = [] \<or> \<not> is_digit (hd rest) \<Longrightarrow> read_octet (digits (unat (b :: u8)) @ rest) = Some (unat b, rest)"
  unfolding read_octet_def using digits_facts(4) [of "unat b" 3] unat_u8_lt [of b]
  by (intro read_number_digits) simp_all

lemma parse_v4_text: "parse_socket_addr (v4_text ip port) = Some (SockV4 ip port)"
proof -
  obtain a b c d where ip: "ip = Ipv4 a b c d" by (cases ip)
  have sep: "digit_value 10 46 = None" "digit_value 10 58 = None" by (simp_all add: digit_value_def)
  have "read_ipv4 (v4_text ip port) = Some (ip, 58 # digits (unat port))"
    by (simp add: ip v4_text_def read_ipv4_def read_sep_def read_given_char_def read_octet_digits sep
        ipv4_from_def numeral_2_eq_2 numeral_3_eq_3)
  moreover have "read_port (58 # digits (unat port)) = Some (port, [])"
    using read_number_digits [of "[]" "unat port" 65536 None True]
    by (simp add: read_port_def read_given_char_def)
  ultimately show ?thesis by (simp add: parse_socket_addr_def read_socket_addr_def)
qed

lemma parse_addr_start:
  assumes "\<not> is_digit x" "x \<noteq> 91"
  shows "parse_socket_addr (x # xs) = None"
proof -
  have "read_octet (x # xs) = None" using assms(1) by (simp add: read_octet_def read_number_def)
  then have "read_ipv4 (x # xs) = None" by (simp add: read_ipv4_def read_sep_def)
  then show ?thesis using assms(2)
    by (simp add: parse_socket_addr_def read_socket_addr_def read_given_char_def)
qed

lemma v4_text_chars: "list_all (\<lambda>c. is_digit c \<or> c = 46 \<or> c = 58) (v4_text ip port)"
  using digits_facts(2) by (cases ip) (auto simp: v4_text_def list_all_iff)

end
