(* ===== verification/Forwarder.thy ===== *)
theory Forwarder
  imports Packet SockAddr
begin

text \<open>
  \<open>resolver/forwarder.rs\<close>: forwarding a query to the upstream resolvers in order, over UDP or
  over TCP with the two-byte length prefix, until one answers. The sockets and the timers are
  the runtime's (tokio): a parameter, the record \<open>net_api\<close>, whose operations act on a state
  \<open>'w\<close> of the world outside and on socket handles \<open>'s\<close>. An operation fails with the text of
  its I/O error; one that runs under a timer may also not complete in time.
\<close>

section \<open>The network\<close>

datatype 'a timed = Done 'a | Failed string | Elapsed

record ('w, 's) net_api =
  net_udp_bind :: "'w \<Rightarrow> (string + 's) \<times> 'w"
  net_udp_connect :: "'s \<Rightarrow> socket_addr \<Rightarrow> 'w \<Rightarrow> (string + unit) \<times> 'w"
  net_udp_send :: "'s \<Rightarrow> u8 list \<Rightarrow> 'w \<Rightarrow> (string + unit) \<times> 'w"
  net_udp_recv :: "nat \<Rightarrow> 's \<Rightarrow> nat \<Rightarrow> 'w \<Rightarrow> u8 list timed \<times> 'w"
  net_tcp_connect :: "nat \<Rightarrow> socket_addr \<Rightarrow> 'w \<Rightarrow> 's timed \<times> 'w"
  net_set_nodelay :: "'s \<Rightarrow> 'w \<Rightarrow> 'w"
  net_start_timer :: "nat \<Rightarrow> 'w \<Rightarrow> 'w"
  net_write_all :: "'s \<Rightarrow> u8 list \<Rightarrow> 'w \<Rightarrow> unit timed \<times> 'w"
  net_flush :: "'s \<Rightarrow> 'w \<Rightarrow> unit timed \<times> 'w"
  net_read_exact :: "'s \<Rightarrow> nat \<Rightarrow> 'w \<Rightarrow> u8 list timed \<times> 'w"
  net_now :: "'w \<Rightarrow> nat \<times> 'w"

text \<open>
  What the runtime documents of the sizes: \<open>recv\<close> fills at most the buffer it is given,
  \<open>read_exact\<close> exactly as many bytes as asked for.
\<close>

definition sized_reads :: "('w, 's) net_api \<Rightarrow> bool" where
  "sized_reads N \<longleftrightarrow>
     (\<forall>t s n w bs w'. net_udp_recv N t s n w = (Done bs, w') \<longrightarrow> length bs \<le> n)
     \<and> (\<forall>s n w bs w'. net_read_exact N s n w = (Done bs, w') \<longrightarrow> length bs = n)"

section \<open>Sequencing\<close>

text \<open>\<open>call.await.map_err(|e| ParseError(format!("<what>: {}", e)))?\<close>, then the rest.\<close>

definition attempt_io ::
  "string \<Rightarrow> (string + 'a) \<times> 'w \<Rightarrow> ('a \<Rightarrow> 'w \<Rightarrow> (dns_error + 'b) \<times> 'w) \<Rightarrow> (dns_error + 'b) \<times> 'w" where
  "attempt_io what r k =
     (case r of (Inl e, w) \<Rightarrow> (Inl (ParseError (what @ '': '' @ e)), w) | (Inr x, w) \<Rightarrow> k x w)"

text \<open>The same for one call under its own timer, \<open>timeout(d, call)\<close>.\<close>

definition attempt_timed ::
  "string \<Rightarrow> string \<Rightarrow> 'a timed \<times> 'w \<Rightarrow> ('a \<Rightarrow> 'w \<Rightarrow> (dns_error + 'b) \<times> 'w) \<Rightarrow> (dns_error + 'b) \<times> 'w" where
  "attempt_timed late what r k =
     (case r of
        (Elapsed, w) \<Rightarrow> (Inl (ParseError late), w)
      | (Failed e, w) \<Rightarrow> (Inl (ParseError (what @ '': '' @ e)), w)
      | (Done x, w) \<Rightarrow> k x w)"

section \<open>State and operations\<close>

datatype upstream_transport = Udp | Tcp

record upstream_entry =
  up_addr :: socket_addr
  up_transport :: upstream_transport

record upstream_forwarder =
  upstreams :: "upstream_entry list"
  timeout_duration :: nat

definition forwarder_new :: "socket_addr \<Rightarrow> nat \<Rightarrow> upstream_forwarder" where
  "forwarder_new upstream_addr timeout_secs =
     \<lparr>upstreams = [\<lparr>up_addr = upstream_addr, up_transport = Udp\<rparr>],
      timeout_duration = timeout_secs * 1000000000\<rparr>"

definition with_upstreams :: "upstream_entry list \<Rightarrow> nat \<Rightarrow> upstream_forwarder" where
  "with_upstreams ups timeout_secs =
     \<lparr>upstreams = ups, timeout_duration = timeout_secs * 1000000000\<rparr>"

definition has_upstreams :: "upstream_forwarder \<Rightarrow> bool" where
  "has_upstreams f \<longleftrightarrow> upstreams f \<noteq> []"

definition forward_udp ::
  "('w, 's) net_api \<Rightarrow> upstream_forwarder \<Rightarrow> u8 list \<Rightarrow> socket_addr \<Rightarrow> 'w \<Rightarrow> (dns_error + u8 list) \<times> 'w" where
  "forward_udp N f query_bytes addr w =
     attempt_io ''UDP bind error'' (net_udp_bind N w) (\<lambda>socket w.
     attempt_io ''UDP connect error'' (net_udp_connect N socket addr w) (\<lambda>_ w.
     attempt_io ''UDP send error'' (net_udp_send N socket query_bytes w) (\<lambda>_ w.
     attempt_timed ''Upstream UDP query timed out'' ''UDP recv error''
       (net_udp_recv N (timeout_duration f) socket 65535 w) (\<lambda>buf w.
     (Inr buf, w)))))"

definition decimal :: "nat \<Rightarrow> string" where
  "decimal n = map (\<lambda>d. char_of (48 + d)) (rev (map (\<lambda>i. n div 10 ^ i mod 10)
     (0 # filter (\<lambda>i. 10 ^ i \<le> n) [1..<20])))"

text \<open>
  The \<open>async\<close> block of \<open>forward_tcp\<close> runs under one timer: whichever call of it is waiting
  when the time is up, the block ends with \<open>Upstream TCP query timed out\<close>.
\<close>

definition forward_tcp ::
  "('w, 's) net_api \<Rightarrow> upstream_forwarder \<Rightarrow> u8 list \<Rightarrow> socket_addr \<Rightarrow> 'w \<Rightarrow> (dns_error + u8 list) \<times> 'w" where
  "forward_tcp N f query_bytes addr w =
     (let late = ''Upstream TCP query timed out'' in
     attempt_timed ''Upstream TCP connect timed out'' ''TCP connect error''
       (net_tcp_connect N (timeout_duration f) addr w) (\<lambda>conn w.
     let w = net_start_timer N (timeout_duration f) (net_set_nodelay N conn w);
         len = (word_of_nat (length query_bytes) :: u16) in
     attempt_timed late ''TCP send length error'' (net_write_all N conn (bytes16 len) w) (\<lambda>_ w.
     attempt_timed late ''TCP send error'' (net_write_all N conn query_bytes w) (\<lambda>_ w.
     attempt_timed late ''TCP flush error'' (net_flush N conn w) (\<lambda>_ w.
     attempt_timed late ''TCP recv length error'' (net_read_exact N conn 2 w) (\<lambda>len_buf w.
     let resp_len = unat (be16 (len_buf ! 0) (len_buf ! 1)) in
     if resp_len = 0 \<or> 65535 < resp_len
     then (Inl (ParseError (''Invalid upstream TCP response length: '' @ decimal resp_len)), w)
     else
       attempt_timed late ''TCP recv error'' (net_read_exact N conn resp_len w) (\<lambda>resp w.
       (Inr resp, w))))))))"

definition forward_one ::
  "('w, 's) net_api \<Rightarrow> upstream_forwarder \<Rightarrow> u8 list \<Rightarrow> upstream_entry \<Rightarrow> 'w \<Rightarrow> (dns_error + u8 list) \<times> 'w" where
  "forward_one N f query_bytes entry w =
     (case up_transport entry of
        Udp \<Rightarrow> forward_udp N f query_bytes (up_addr entry) w
      | Tcp \<Rightarrow> forward_tcp N f query_bytes (up_addr entry) w)"

text \<open>The \<open>for entry in &self.upstreams\<close> loop with its \<open>last_err\<close>.\<close>

fun forward_each ::
  "('w, 's) net_api \<Rightarrow> upstream_forwarder \<Rightarrow> u8 list \<Rightarrow> upstream_entry list \<Rightarrow> dns_error \<Rightarrow> 'w
     \<Rightarrow> (dns_error + u8 list) \<times> 'w" where
  "forward_each N f query_bytes [] last_err w = (Inl last_err, w)"
| "forward_each N f query_bytes (entry # rest) last_err w =
     (case forward_one N f query_bytes entry w of
        (Inr resp, w') \<Rightarrow> (Inr resp, w')
      | (Inl e, w') \<Rightarrow> forward_each N f query_bytes rest e w')"

definition forward_raw ::
  "('w, 's) net_api \<Rightarrow> upstream_forwarder \<Rightarrow> u8 list \<Rightarrow> 'w \<Rightarrow> (dns_error + u8 list) \<times> 'w" where
  "forward_raw N f query_bytes w =
     (if upstreams f = [] then (Inl (ParseError ''No upstream resolver configured''), w)
      else forward_each N f query_bytes (upstreams f) (ParseError ''no upstream attempted'') w)"

definition forward_packet ::
  "buf_api \<Rightarrow> unicode \<Rightarrow> ('w, 's) net_api \<Rightarrow> upstream_forwarder \<Rightarrow> dns_packet \<Rightarrow> 'w
     \<Rightarrow> (dns_error, dns_packet) outcome \<times> 'w" where
  "forward_packet B U N f packet w =
     (case forward_raw N f (to_bytes B packet) w of
        (Inl e, w') \<Rightarrow> (Err e, w')
      | (Inr resp_bytes, w') \<Rightarrow> (packet_parse B U resp_bytes, w'))"

section \<open>Specification\<close>

text \<open>
  \<open>all_fail\<close>: these upstreams were asked one after the other and each failed; the worlds are
  threaded, and \<open>e\<close> is the error of the last one (\<open>e0\<close> if there is none).
\<close>

inductive all_fail ::
  "('w, 's) net_api \<Rightarrow> upstream_forwarder \<Rightarrow> u8 list \<Rightarrow> upstream_entry list \<Rightarrow> dns_error \<Rightarrow> 'w
     \<Rightarrow> dns_error \<Rightarrow> 'w \<Rightarrow> bool" for N f q where
  none: "all_fail N f q [] e w e w"
| more: "forward_one N f q entry w = (Inl e1, w1) \<Longrightarrow> all_fail N f q rest e1 w1 e2 w2 \<Longrightarrow>
    all_fail N f q (entry # rest) e0 w e2 w2"

inductive_simps all_fail_Nil: "all_fail N f q [] e0 w e w'"
inductive_simps all_fail_Cons: "all_fail N f q (u # us) e0 w e w'"

section \<open>Lemmas\<close>

lemma forward_each_fails:
  "forward_each N f q us e0 w = (Inl e, w') \<longleftrightarrow> all_fail N f q us e0 w e w'"
  by (induction us arbitrary: e0 w)
    (auto simp: all_fail_Nil all_fail_Cons split: prod.splits sum.splits)

lemma forward_each_succeeds:
  "forward_each N f q us e0 w = (Inr r, w') \<longleftrightarrow>
    (\<exists>pre u post. us = pre @ u # post \<and> (\<exists>e w1. all_fail N f q pre e0 w e w1
      \<and> forward_one N f q u w1 = (Inr r, w')))"
proof (induction us arbitrary: e0 w)
  case (Cons u us)
  obtain res w1 where "forward_one N f q u w = (res, w1)" by fastforce
  then show ?case
    unfolding ex_split_Cons by (cases res) (auto simp: Cons.IH all_fail_Nil all_fail_Cons)
qed simp

text \<open>Responses are never longer than a length field can say.\<close>

lemma recv_sized: "sized_reads N \<Longrightarrow> net_udp_recv N t s n w = (Done bs, w') \<Longrightarrow> length bs \<le> n"
  and read_exact_sized: "sized_reads N \<Longrightarrow> net_read_exact N s n w = (Done bs, w') \<Longrightarrow> length bs = n"
  unfolding sized_reads_def by blast+

lemma forward_udp_length:
  assumes "sized_reads N" "forward_udp N f q a w = (Inr r, w')"
  shows "length r < 65536"
proof -
  obtain s w1 where "net_udp_recv N (timeout_duration f) s 65535 w1 = (Done r, w')"
    using assms(2)
    by (auto simp: forward_udp_def attempt_io_def attempt_timed_def
        split: prod.splits sum.splits timed.splits)
  from recv_sized [OF assms(1) this] show ?thesis by simp
qed

lemma forward_tcp_length:
  assumes "sized_reads N" "forward_tcp N f q a w = (Inr r, w')"
  shows "0 < length r \<and> length r < 65536"
proof -
  obtain s n w1 where "net_read_exact N s n w1 = (Done r, w')" "0 < n" "n < 65536"
    using assms(2)
    by (auto simp: forward_tcp_def attempt_timed_def Let_def
        split: prod.splits timed.splits if_splits)
  with read_exact_sized [OF assms(1)] show ?thesis by blast
qed

lemma forward_one_length:
  "sized_reads N \<Longrightarrow> forward_one N f q u w = (Inr r, w') \<Longrightarrow> length r < 65536"
  by (auto simp: forward_one_def dest: forward_udp_length forward_tcp_length
      split: upstream_transport.splits)

lemma forward_raw_length:
  "sized_reads N \<Longrightarrow> forward_raw N f q w = (Inr r, w') \<Longrightarrow> length r < 65536"
  by (auto simp: forward_raw_def forward_each_succeeds dest: forward_one_length split: if_splits)

text \<open>
  A relation that every call of the network interface keeps between the world before and the
  world after it: what a stretch of forwarding then keeps as well.
\<close>

definition net_keeps :: "('w, 's) net_api \<Rightarrow> ('w \<Rightarrow> 'w \<Rightarrow> bool) \<Rightarrow> bool" where
  "net_keeps N R \<longleftrightarrow>
     (\<forall>w. R w (snd (net_udp_bind N w))) \<and> (\<forall>s a w. R w (snd (net_udp_connect N s a w)))
     \<and> (\<forall>s bs w. R w (snd (net_udp_send N s bs w))) \<and> (\<forall>t s n w. R w (snd (net_udp_recv N t s n w)))
     \<and> (\<forall>t a w. R w (snd (net_tcp_connect N t a w))) \<and> (\<forall>s w. R w (net_set_nodelay N s w))
     \<and> (\<forall>t w. R w (net_start_timer N t w)) \<and> (\<forall>s bs w. R w (snd (net_write_all N s bs w)))
     \<and> (\<forall>s w. R w (snd (net_flush N s w))) \<and> (\<forall>s n w. R w (snd (net_read_exact N s n w)))
     \<and> (\<forall>w. R w (snd (net_now N w)))"

lemma attempt_io_keeps:
  assumes "transp R" "R w0 (snd r)" "\<And>x w. R w (snd (k x w))"
  shows "R w0 (snd (attempt_io what r k))"
  using assms(2) transpD [OF assms(1) assms(2) assms(3)]
  by (cases r) (auto simp: attempt_io_def split: sum.split)

lemma attempt_timed_keeps:
  assumes "transp R" "R w0 (snd r)" "\<And>x w. R w (snd (k x w))"
  shows "R w0 (snd (attempt_timed late what r k))"
  using assms(2) transpD [OF assms(1) assms(2) assms(3)]
  by (cases r) (auto simp: attempt_timed_def split: timed.split)

lemma forward_one_keeps:
  assumes "reflp R" "transp R" "net_keeps N R"
  shows "R w (snd (forward_one N f q u w))"
proof -
  note r = reflpD [OF assms(1)]
  note io = attempt_io_keeps [OF assms(2)] and timed = attempt_timed_keeps [OF assms(2)]
  have start: "R w (snd (net_write_all N s bs (net_start_timer N t (net_set_nodelay N s w))))"
    for w s bs t
  proof (rule transpD [OF assms(2) transpD [OF assms(2)]])
    show "R w (net_set_nodelay N s w)"
      "R (net_set_nodelay N s w) (net_start_timer N t (net_set_nodelay N s w))"
      using assms(3) by (simp_all add: net_keeps_def)
  qed (use assms(3) in \<open>simp add: net_keeps_def\<close>)
  have branch: "R w (snd (if b then x else y))" if "R w (snd x)" "R w (snd y)" for b w x y
    using that by simp
  have "R w (snd (forward_udp N f q (up_addr u) w))"
    unfolding forward_udp_def
    by (intro io timed) (use assms(3) in \<open>simp_all add: net_keeps_def r\<close>)
  moreover have "R w (snd (forward_tcp N f q (up_addr u) w))"
    unfolding forward_tcp_def Let_def
    by (intro timed branch) (use assms(3) in \<open>simp_all add: net_keeps_def r start\<close>)
  ultimately show ?thesis
    by (simp add: forward_one_def split: upstream_transport.split)
qed

lemma forward_raw_keeps:
  assumes "reflp R" "transp R" "net_keeps N R"
  shows "R w (snd (forward_raw N f q w))"
proof -
  have "R w (snd (forward_each N f q us e w))" for us e
  proof (induction us arbitrary: e w)
    case (Cons u us)
    obtain r w1 where "forward_one N f q u w = (r, w1)" by fastforce
    then show ?case
      using forward_one_keeps [OF assms, of w f q u] transpD [OF assms(2) _ Cons.IH]
      by (simp split: sum.split)
  qed (simp add: reflpD [OF assms(1)])
  then show ?thesis by (simp add: forward_raw_def reflpD [OF assms(1)])
qed

section \<open>Properties\<close>

text \<open>C20: forwarding succeeds exactly when some upstream answers after all those before it in the
  list failed, one after the other; the result is that upstream's answer, and none of the
  upstreams behind it is asked.\<close>

theorem forward_first_answer:
  "forward_raw N f q w = (Inr r, w') \<longleftrightarrow>
     (\<exists>pre u post e w1. upstreams f = pre @ u # post
        \<and> all_fail N f q pre (ParseError ''no upstream attempted'') w e w1
        \<and> forward_one N f q u w1 = (Inr r, w'))"
  by (auto simp: forward_raw_def forward_each_succeeds)

text \<open>C21: forwarding fails exactly when there is no upstream, without touching the network, or when
  every upstream was asked and failed; the error is then that of the last one.\<close>

theorem forward_last_error:
  "forward_raw N f q w = (Inl e, w') \<longleftrightarrow>
     (if has_upstreams f then all_fail N f q (upstreams f) (ParseError ''no upstream attempted'') w e w'
      else e = ParseError ''No upstream resolver configured'' \<and> w' = w)"
  by (auto simp: forward_raw_def forward_each_fails has_upstreams_def)

text \<open>A network that always answers the same; \<open>tick\<close> reads the clock of its world.\<close>

definition fixed_net :: "('w \<Rightarrow> nat \<times> 'w) \<Rightarrow> u8 list \<Rightarrow> ('w, unit) net_api" where
  "fixed_net tick reply = \<lparr>
     net_udp_bind = (\<lambda>w. (Inr (), w)), net_udp_connect = (\<lambda>s a w. (Inr (), w)),
     net_udp_send = (\<lambda>s bs w. (Inr (), w)), net_udp_recv = (\<lambda>t s n w. (Done (take n reply), w)),
     net_tcp_connect = (\<lambda>t a w. (Done (), w)), net_set_nodelay = (\<lambda>s w. w),
     net_start_timer = (\<lambda>t w. w), net_write_all = (\<lambda>s bs w. (Done (), w)),
     net_flush = (\<lambda>s w. (Done (), w)),
     net_read_exact = (\<lambda>s n w. (Done (if n = 2 then bytes16 (word_of_nat (length reply))
        else take n (reply @ replicate n 0)), w)),
     net_now = tick\<rparr>"

lemma fixed_net_keeps:
  "reflp R \<Longrightarrow> (\<And>w. R w (snd (tick w))) \<Longrightarrow> net_keeps (fixed_net tick reply) R"
  by (simp add: net_keeps_def fixed_net_def reflp_def)

lemma fixed_net_sized: "sized_reads (fixed_net tick reply)"
  by (auto simp: sized_reads_def fixed_net_def)

definition one_upstream :: upstream_forwarder where
  "one_upstream = with_upstreams [\<lparr>up_addr = SockV4 (Ipv4 1 1 1 1) 53, up_transport = Udp\<rparr>] 5"

lemma fixed_net_answers:
  "forward_raw (fixed_net tick reply) one_upstream q w = (Inr (take 65535 reply), w)"
  by (simp add: forward_raw_def one_upstream_def with_upstreams_def forward_one_def forward_udp_def
      attempt_io_def attempt_timed_def fixed_net_def)

text \<open>C33: every answer fits the 16-bit length prefix of a stream, so that it can be framed.\<close>

theorem forward_answer_fits:
  assumes "sized_reads N" "forward_raw N f q w = (Inr r, w')"
  shows "length r < 65536"
  using assms by (rule forward_raw_length)

theorem forward_answer_fits_witness:
  "forward_raw (fixed_net (\<lambda>t. (t, Suc t)) (replicate 70000 7)) one_upstream [1, 2] 0 =
      (Inr (replicate 65535 7), 0)
    \<and> length (replicate 65535 (7 :: u8)) < 65536"
proof -
  have "forward_raw (fixed_net (\<lambda>t. (t, Suc t)) (replicate 70000 7)) one_upstream [1, 2] 0 =
      (Inr (replicate 65535 7), 0)"
    by (simp only: fixed_net_answers take_replicate) simp
  from this forward_answer_fits [OF fixed_net_sized this] show ?thesis by (rule conjI)
qed

end
