(* ===== verification/Config.thy ===== *)
theory Config
  imports Forwarder
begin

text \<open>
  \<open>config.rs\<close>: the configuration file, its defaults, the overrides from the environment, the
  validation, and the list of upstream resolvers. The TOML deserialiser (crates \<open>toml\<close> and
  \<open>serde\<close>) is a parameter, \<open>toml_api\<close>; reading a file and an environment variable are
  functions \<open>read_file\<close> and \<open>getenv\<close> of the process' surroundings.
\<close>

section \<open>Data\<close>

datatype config_error = IoError string | TomlError string | ValidationError rstr

record server_section =
  ss_bind_addr :: socket_addr
  ss_upstream_addr :: socket_addr
  ss_upstreams :: "rstr list"
  ss_tcp_enabled :: bool
  ss_tls_enabled :: bool
  ss_tls_cert_path :: "rstr option"
  ss_tls_key_path :: "rstr option"
  ss_tls_port :: u16
  ss_block_mode :: rstr
  ss_logging_enabled :: bool

record cache_section =
  cs_capacity :: u64
  cs_min_ttl_secs :: u64
  cs_max_ttl_secs :: u64

record filter_section =
  fs_blocklist_paths :: "rstr list"
  fs_allowlist_paths :: "rstr list"

record toml_config_file =
  tc_server :: server_section
  tc_cache :: cache_section
  tc_filter :: "filter_section option"

record server_config =
  bind_addr :: socket_addr
  upstream_addr :: socket_addr
  cfg_upstreams :: "rstr list"
  tcp_enabled :: bool
  tls_enabled :: bool
  tls_cert_path :: "rstr option"
  tls_key_path :: "rstr option"
  tls_port :: u16
  block_mode :: rstr
  cache_capacity :: u64
  min_ttl_secs :: u64
  max_ttl_secs :: u64
  blocklist_paths :: "rstr list"
  allowlist_paths :: "rstr list"
  logging_enabled :: bool

text \<open>The two calls of \<open>toml::from_str\<close>.\<close>

record toml_api =
  toml_table :: "rstr \<Rightarrow> string + toml_config_file"
  toml_flat :: "rstr \<Rightarrow> string + server_config"

section \<open>Defaults\<close>

text \<open>\<open>"127.0.0.1:5335".parse().unwrap()\<close>: a parse that cannot fail (\<open>parse_v4_example\<close>).\<close>

definition default_upstream_addr :: socket_addr where
  "default_upstream_addr = the (parse_socket_addr (lit ''127.0.0.1:5335''))"

definition default_tls_port :: u16 where
  "default_tls_port = 853"

definition server_config_default :: server_config where
  "server_config_default = \<lparr>
     bind_addr = the (parse_socket_addr (lit ''127.0.0.1:5353'')),
     upstream_addr = the (parse_socket_addr (lit ''127.0.0.1:5335'')),
     cfg_upstreams = [], tcp_enabled = False, tls_enabled = False,
     tls_cert_path = None, tls_key_path = None, tls_port = 853,
     block_mode = lit ''nxdomain'', cache_capacity = 10000, min_ttl_secs = 60,
     max_ttl_secs = 86400, blocklist_paths = [], allowlist_paths = [],
     logging_enabled = False\<rparr>"

section \<open>Environment overrides\<close>

type_synonym environment = "string \<Rightarrow> rstr option"

definition apply_tls_env_overrides :: "environment \<Rightarrow> server_config \<Rightarrow> server_config" where
  "apply_tls_env_overrides getenv c =
     (let c = (case getenv ''TLS_CERT'' of Some cert \<Rightarrow> c\<lparr>tls_cert_path := Some cert\<rparr> | None \<Rightarrow> c);
          c = (case getenv ''TLS_KEY'' of Some key \<Rightarrow> c\<lparr>tls_key_path := Some key\<rparr> | None \<Rightarrow> c);
          c = (case getenv ''TLS_CERT_PATH'' of Some cert \<Rightarrow> c\<lparr>tls_cert_path := Some cert\<rparr> | None \<Rightarrow> c);
          c = (case getenv ''TLS_KEY_PATH'' of Some key \<Rightarrow> c\<lparr>tls_key_path := Some key\<rparr> | None \<Rightarrow> c);
          c = (case getenv ''VANTA_DNS_UPSTREAMS'' of
                 Some l \<Rightarrow> c\<lparr>cfg_upstreams := map trim (split_char (of_char CHR '','') l)\<rparr>
               | None \<Rightarrow> c)
      in if \<not> tls_enabled c \<and> tls_cert_path c \<noteq> None \<and> tls_key_path c \<noteq> None
         then c\<lparr>tls_enabled := True, tcp_enabled := True\<rparr> else c)"

section \<open>Validation\<close>

definition mode_error :: "rstr \<Rightarrow> rstr" where
  "mode_error m = lit ''Invalid block_mode: '' @ [39] @ m @ [39]
     @ lit ''. Allowed: '' @ [39] @ lit ''nxdomain'' @ [39] @ lit '' or '' @ [39] @ lit ''zero_ip'' @ [39]"

definition validate :: "unicode \<Rightarrow> environment \<Rightarrow> server_config \<Rightarrow> config_error + unit" where
  "validate U getenv c =
     (if cache_capacity c = 0
      then Inl (ValidationError (lit ''cache_capacity must be greater than 0''))
      else if max_ttl_secs c < min_ttl_secs c
      then Inl (ValidationError (lit ''min_ttl_secs cannot be greater than max_ttl_secs''))
      else
        (let mode = to_lowercase U (block_mode c) in
         if mode \<noteq> lit ''nxdomain'' \<and> mode \<noteq> lit ''zero_ip''
         then Inl (ValidationError (mode_error (block_mode c)))
         else if tls_enabled c \<and> tls_cert_path c = None \<and> getenv ''TLS_CERT_PATH'' = None
         then Inl (ValidationError (lit ''tls_enabled=true but no TLS certificate provided. Set tls_cert_path or TLS_CERT env var''))
         else if tls_enabled c \<and> tls_key_path c = None \<and> getenv ''TLS_KEY_PATH'' = None
         then Inl (ValidationError (lit ''tls_enabled=true but no TLS private key provided. Set tls_key_path or TLS_KEY env var''))
         else Inr ()))"

section \<open>Loading\<close>

definition config_of_table :: "toml_config_file \<Rightarrow> server_config" where
  "config_of_table f =
     (let s = tc_server f; k = tc_cache f;
          fl = (case tc_filter f of Some x \<Rightarrow> x
                | None \<Rightarrow> \<lparr>fs_blocklist_paths = [], fs_allowlist_paths = []\<rparr>)
      in \<lparr>bind_addr = ss_bind_addr s, upstream_addr = ss_upstream_addr s,
          cfg_upstreams = ss_upstreams s, tcp_enabled = ss_tcp_enabled s,
          tls_enabled = ss_tls_enabled s, tls_cert_path = ss_tls_cert_path s,
          tls_key_path = ss_tls_key_path s, tls_port = ss_tls_port s,
          block_mode = ss_block_mode s, cache_capacity = cs_capacity k,
          min_ttl_secs = cs_min_ttl_secs k, max_ttl_secs = cs_max_ttl_secs k,
          blocklist_paths = fs_blocklist_paths fl, allowlist_paths = fs_allowlist_paths fl,
          logging_enabled = ss_logging_enabled s\<rparr>)"

definition finish_config ::
  "unicode \<Rightarrow> environment \<Rightarrow> server_config \<Rightarrow> config_error + server_config" where
  "finish_config U getenv c =
     (let c = apply_tls_env_overrides getenv c
      in case validate U getenv c of Inl e \<Rightarrow> Inl e | Inr _ \<Rightarrow> Inr c)"

definition load_from_file ::
  "unicode \<Rightarrow> environment \<Rightarrow> toml_api \<Rightarrow> (rstr \<Rightarrow> string + rstr) \<Rightarrow> rstr \<Rightarrow> config_error + server_config" where
  "load_from_file U getenv T read_file path =
     (case read_file path of
        Inl e \<Rightarrow> Inl (IoError e)
      | Inr content \<Rightarrow>
          (case toml_table T content of
             Inr toml_file \<Rightarrow> finish_config U getenv (config_of_table toml_file)
           | Inl _ \<Rightarrow>
               (case toml_flat T content of
                  Inl e \<Rightarrow> Inl (TomlError e)
                | Inr c \<Rightarrow> finish_config U getenv c)))"

section \<open>Upstreams\<close>

text \<open>One turn of the loop over \<open>self.upstreams\<close>: the entry a spec adds, if any.\<close>

definition upstream_of_spec :: "rstr \<Rightarrow> upstream_entry option" where
  "upstream_of_spec raw =
     (let spec = trim raw in
      if spec = [] then None
      else case strip_prefix (lit ''tcp:'') spec of
        Some rest \<Rightarrow> map_option (\<lambda>a. \<lparr>up_addr = a, up_transport = Tcp\<rparr>) (parse_socket_addr rest)
      | None \<Rightarrow>
          (case strip_prefix (lit ''udp:'') spec of
             Some rest \<Rightarrow> map_option (\<lambda>a. \<lparr>up_addr = a, up_transport = Udp\<rparr>) (parse_socket_addr rest)
           | None \<Rightarrow> map_option (\<lambda>a. \<lparr>up_addr = a, up_transport = Udp\<rparr>) (parse_socket_addr spec)))"

fun push_upstreams :: "rstr list \<Rightarrow> upstream_entry list \<Rightarrow> upstream_entry list" where
  "push_upstreams [] entries = entries"
| "push_upstreams (spec # specs) entries =
     (case upstream_of_spec spec of
        None \<Rightarrow> push_upstreams specs entries
      | Some e \<Rightarrow> push_upstreams specs (entries @ [e]))"

definition resolve_upstreams :: "server_config \<Rightarrow> upstream_entry list" where
  "resolve_upstreams c =
     (let entries = push_upstreams (cfg_upstreams c) [] in
      if entries = [] \<and> cfg_upstreams c = []
      then [\<lparr>up_addr = upstream_addr c, up_transport = Udp\<rparr>]
      else entries)"

section \<open>Specification\<close>

definition config_ok :: "unicode \<Rightarrow> server_config \<Rightarrow> bool" where
  "config_ok U c \<longleftrightarrow> 0 < cache_capacity c \<and> min_ttl_secs c \<le> max_ttl_secs c
     \<and> to_lowercase U (block_mode c) \<in> {lit ''nxdomain'', lit ''zero_ip''}"

definition tls_complete :: "server_config \<Rightarrow> bool" where
  "tls_complete c \<longleftrightarrow> (tls_enabled c \<longleftrightarrow> tls_cert_path c \<noteq> None \<and> tls_key_path c \<noteq> None)"

text \<open>
  What an entry of the list says: after \<open>tcp:\<close>, after \<open>udp:\<close> or bare, a socket address, with blanks
  around it.
\<close>

definition says :: "rstr \<Rightarrow> upstream_entry \<Rightarrow> bool" where
  "says s u \<longleftrightarrow> (\<exists>a. parse_socket_addr a = Some (up_addr u)
     \<and> (trim s = lit ''tcp:'' @ a \<and> up_transport u = Tcp
        \<or> trim s = lit ''udp:'' @ a \<and> up_transport u = Udp
        \<or> trim s = a \<and> up_transport u = Udp))"

text \<open>The list as a whole: one upstream for each entry that says one, in order.\<close>

inductive list_says :: "rstr list \<Rightarrow> upstream_entry list \<Rightarrow> bool" where
  "list_says [] []"
| "says s u \<Longrightarrow> list_says specs us \<Longrightarrow> list_says (s # specs) (u # us)"
| "\<nexists>u. says s u \<Longrightarrow> list_says specs us \<Longrightarrow> list_says (s # specs) us"

text \<open>How an upstream with an IPv4 address is written in the list.\<close>

inductive spells :: "rstr \<Rightarrow> upstream_entry \<Rightarrow> bool" where
  "spells (lit ''tcp:'' @ v4_text ip port) \<lparr>up_addr = SockV4 ip port, up_transport = Tcp\<rparr>"
| "spells (lit ''udp:'' @ v4_text ip port) \<lparr>up_addr = SockV4 ip port, up_transport = Udp\<rparr>"
| "spells (v4_text ip port) \<lparr>up_addr = SockV4 ip port, up_transport = Udp\<rparr>"

section \<open>Lemmas\<close>

lemma push_upstreams_filter:
  "push_upstreams specs entries = entries @ List.map_filter upstream_of_spec specs"
  by (induction specs arbitrary: entries) (auto simp: map_filter_simps split: option.split)

lemma validate_ok:
  "validate U getenv c = Inr () \<longleftrightarrow> config_ok U c
     \<and> (tls_enabled c \<longrightarrow> (tls_cert_path c \<noteq> None \<or> getenv ''TLS_CERT_PATH'' \<noteq> None)
         \<and> (tls_key_path c \<noteq> None \<or> getenv ''TLS_KEY_PATH'' \<noteq> None))"
  by (auto simp: validate_def config_ok_def Let_def word_gt_0 not_less)

lemma overrides_frame:
  "cache_capacity (apply_tls_env_overrides g c) = cache_capacity c"
  "min_ttl_secs (apply_tls_env_overrides g c) = min_ttl_secs c"
  "max_ttl_secs (apply_tls_env_overrides g c) = max_ttl_secs c"
  "block_mode (apply_tls_env_overrides g c) = block_mode c"
  "upstream_addr (apply_tls_env_overrides g c) = upstream_addr c"
  by (simp_all add: apply_tls_env_overrides_def Let_def split: option.split)

lemma overrides_paths:
  "g ''TLS_CERT_PATH'' \<noteq> None \<Longrightarrow> tls_cert_path (apply_tls_env_overrides g c) \<noteq> None"
  "g ''TLS_KEY_PATH'' \<noteq> None \<Longrightarrow> tls_key_path (apply_tls_env_overrides g c) \<noteq> None"
  by (auto simp: apply_tls_env_overrides_def Let_def split: option.split)

lemma overrides_tls:
  "tls_cert_path (apply_tls_env_overrides g c) \<noteq> None \<Longrightarrow>
   tls_key_path (apply_tls_env_overrides g c) \<noteq> None \<Longrightarrow>
    tls_enabled (apply_tls_env_overrides g c)"
  by (auto simp: apply_tls_env_overrides_def Let_def split: option.splits if_splits)

lemma finish_config_ok:
  assumes "finish_config U g c = Inr c'"
  shows "c' = apply_tls_env_overrides g c" "config_ok U c'" "tls_complete c'"
proof -
  show eq: "c' = apply_tls_env_overrides g c" and ok: "config_ok U c'"
    using assms by (auto simp: finish_config_def Let_def validate_ok split: sum.splits)
  have "tls_enabled c' \<Longrightarrow> tls_cert_path c' \<noteq> None \<and> tls_key_path c' \<noteq> None"
    using assms overrides_paths [of g c] unfolding eq
    by (auto simp: finish_config_def Let_def validate_ok split: sum.splits)
  then show "tls_complete c'"
    using overrides_tls [of g c] unfolding eq tls_complete_def by blast
qed

lemma load_from_file_finish:
  "load_from_file U g T rd path = Inr c' \<Longrightarrow> \<exists>c. finish_config U g c = Inr c'"
  by (auto simp: load_from_file_def split: sum.splits)

inductive_simps list_says_simps: "list_says [] us" "list_says (s # specs) us"

lemma parse_not_prefixed:
  "parse_socket_addr (lit ''tcp:'' @ a) = None" "parse_socket_addr (lit ''udp:'' @ a) = None"
  "parse_socket_addr [] = None"
  by (simp_all add: parse_addr_start digit_value_def Let_def)
    (simp add: parse_socket_addr_def read_socket_addr_def read_ipv4_def addr_readers)

lemma prefixes_differ: "lit ''tcp:'' @ a \<noteq> lit ''udp:'' @ b" "lit ''udp:'' @ b \<noteq> lit ''tcp:'' @ a"
  "lit ''tcp:'' @ a \<noteq> []" "lit ''udp:'' @ a \<noteq> []"
  by simp_all

lemma upstream_of_spec_cases:
  "trim s = lit ''tcp:'' @ a \<Longrightarrow>
    upstream_of_spec s = map_option (\<lambda>a. \<lparr>up_addr = a, up_transport = Tcp\<rparr>) (parse_socket_addr a)"
  "trim s = lit ''udp:'' @ a \<Longrightarrow>
    upstream_of_spec s = map_option (\<lambda>a. \<lparr>up_addr = a, up_transport = Udp\<rparr>) (parse_socket_addr a)"
  "\<nexists>a. trim s = lit ''tcp:'' @ a \<Longrightarrow> \<nexists>a. trim s = lit ''udp:'' @ a \<Longrightarrow>
    upstream_of_spec s = map_option (\<lambda>a. \<lparr>up_addr = a, up_transport = Udp\<rparr>) (parse_socket_addr (trim s))"
  by (simp_all only: upstream_of_spec_def Let_def prefixes_differ if_False strip_prefix_append
      strip_prefix_None option.case simp_thms parse_not_prefixed option.map if_cancel
      split: if_split) (simp_all add: parse_not_prefixed(3))

lemma entry_of_addr: "map_option (\<lambda>a. \<lparr>up_addr = a, up_transport = t\<rparr>) x = Some u \<longleftrightarrow>
    x = Some (up_addr u) \<and> up_transport u = t"
  by (cases u) auto

lemma upstream_of_spec_says: "upstream_of_spec s = Some u \<longleftrightarrow> says s u"
proof -
  consider (tcp) a where "trim s = lit ''tcp:'' @ a" | (udp) a where "trim s = lit ''udp:'' @ a"
    | (bare) "\<nexists>a. trim s = lit ''tcp:'' @ a" "\<nexists>a. trim s = lit ''udp:'' @ a" by blast
  then show ?thesis
  proof cases
    case tcp
    then show ?thesis
      unfolding says_def upstream_of_spec_cases(1) [OF tcp] entry_of_addr
      by (metis append_same_eq same_append_eq option.distinct(1) parse_not_prefixed(1) prefixes_differ(1))
  next
    case udp
    then show ?thesis
      unfolding says_def upstream_of_spec_cases(2) [OF udp] entry_of_addr
      by (metis same_append_eq option.distinct(1) parse_not_prefixed(2) prefixes_differ(2))
  next
    case bare
    then show ?thesis
      unfolding says_def upstream_of_spec_cases(3) [OF bare] entry_of_addr by blast
  qed
qed

lemma list_says_filter: "list_says specs us \<longleftrightarrow> us = List.map_filter upstream_of_spec specs"
proof (induction specs arbitrary: us)
  case (Cons s specs)
  show ?case
  proof (cases "upstream_of_spec s")
    case None
    then have "\<nexists>u. says s u" using upstream_of_spec_says [of s] by simp
    then show ?thesis by (simp add: list_says_simps map_filter_simps None Cons.IH)
  next
    case (Some u)
    then have "says s = (\<lambda>v. v = u)" by (auto simp: upstream_of_spec_says [symmetric] fun_eq_iff)
    then show ?thesis by (auto simp: list_says_simps map_filter_simps Some Cons.IH)
  qed
qed (simp add: list_says_simps map_filter_simps)

lemma spells_facts:
  assumes "spells s u"
  shows "trim s = s" "44 \<notin> set s" "upstream_of_spec s = Some u"
proof -
  have c: "is_digit c \<or> c = 46 \<or> c = 58 \<Longrightarrow> \<not> is_ws c \<and> c \<noteq> 44" for c
    by (auto simp: digit_value_def is_ws_def Let_def split: if_splits)
  then have v: "\<forall>c \<in> set (v4_text ip port). \<not> is_ws c \<and> c \<noteq> 44" for ip port
    using v4_text_chars [of ip port] unfolding list_all_iff by blast
  have "\<forall>c \<in> set s. \<not> is_ws c \<and> c \<noteq> 44"
    using assms v by (cases rule: spells.cases) (auto simp: is_ws_def)
  then show t: "trim s = s" and "44 \<notin> set s" by (auto intro!: trim_no_ws simp: list_all_iff)
  show "upstream_of_spec s = Some u"
    unfolding upstream_of_spec_says says_def t
    using assms by (cases rule: spells.cases) (use parse_v4_text in \<open>fastforce simp del: lit_simps\<close>)+
qed

section \<open>Properties\<close>

text \<open>C22: a configuration that loads is sound, from whichever of the two file formats and under
  whatever environment: the cache has room, the two lifetimes are in order, the block mode is
  known, and TLS is on exactly if both a certificate and a key are set.\<close>

theorem loaded_config_sound:
  assumes "load_from_file U getenv T read_file path = Inr c"
  shows "config_ok U c \<and> tls_complete c"
  using load_from_file_finish [OF assms] finish_config_ok(2,3) by blast

definition sample_toml :: toml_api where
  "sample_toml = \<lparr>toml_table = (\<lambda>s. Inl ''expected a table''),
     toml_flat = (\<lambda>s. Inr server_config_default)\<rparr>"

definition tls_environment :: environment where
  "tls_environment = [''TLS_CERT'' \<mapsto> lit ''/c.pem'', ''TLS_KEY'' \<mapsto> lit ''/k.pem'']"

theorem loaded_config_sound_witness:
  "\<forall>U. \<exists>c. load_from_file U tls_environment sample_toml (\<lambda>p. Inr []) (lit ''f'') = Inr c
    \<and> config_ok U c \<and> tls_complete c"
proof
  fix U
  have "\<exists>c. load_from_file U tls_environment sample_toml (\<lambda>p. Inr []) (lit ''f'') = Inr c"
    by (simp add: load_from_file_def sample_toml_def finish_config_def validate_def Let_def
        apply_tls_env_overrides_def tls_environment_def server_config_default_def
        to_lowercase_def char_lower_def ascii_lower_def)
  then show "\<exists>c. load_from_file U tls_environment sample_toml (\<lambda>p. Inr []) (lit ''f'') = Inr c
    \<and> config_ok U c \<and> tls_complete c"
    using loaded_config_sound by blast
qed

text \<open>C31: the upstreams are what the entries of the list say, in its order: after \<open>tcp:\<close> an address asked
  over TCP, after \<open>udp:\<close> or bare one asked over UDP, blanks around the entry ignored; an entry that
  says nothing is left out. The single address of the configuration stands in only for a list
  that is empty, not for one without a readable entry.\<close>

theorem resolve_upstreams_spec:
  "if cfg_upstreams c = []
   then resolve_upstreams c = [\<lparr>up_addr = upstream_addr c, up_transport = Udp\<rparr>]
   else list_says (cfg_upstreams c) us \<longleftrightarrow> us = resolve_upstreams c"
  by (auto simp: list_says_filter resolve_upstreams_def push_upstreams_filter map_filter_simps)

text \<open>C38: upstreams with IPv4 addresses, written in any of the three forms and joined by commas in the
  variable \<open>VANTA_DNS_UPSTREAMS\<close>, are read back as they are, whatever the configuration file says.\<close>

theorem environment_upstreams:
  assumes "list_all2 spells specs us" "us \<noteq> []"
  shows "resolve_upstreams (apply_tls_env_overrides
      (getenv(''VANTA_DNS_UPSTREAMS'' \<mapsto> join_char (of_char CHR '','') specs)) c) = us"
proof -
  have "map trim specs = specs \<and> list_all (\<lambda>l. 44 \<notin> set l) specs \<and> List.map_filter upstream_of_spec specs = us"
    using assms(1)
    by (induction rule: list_all2_induct) (auto simp: spells_facts map_filter_simps)
  moreover from this have "split_char 44 (join_char 44 specs) = specs"
    using assms by (intro split_join_char) auto
  ultimately show ?thesis using assms(2)
    by (simp add: apply_tls_env_overrides_def resolve_upstreams_def push_upstreams_filter Let_def split: option.split)
qed

theorem environment_upstreams_witness:
  "resolve_upstreams (apply_tls_env_overrides
     ((\<lambda>x. None)(''VANTA_DNS_UPSTREAMS'' \<mapsto> lit ''tcp:1.1.1.1:53,192.0.2.10:5335'')) server_config_default) =
   [\<lparr>up_addr = SockV4 (Ipv4 1 1 1 1) 53, up_transport = Tcp\<rparr>,
    \<lparr>up_addr = SockV4 (Ipv4 192 0 2 10) 5335, up_transport = Udp\<rparr>]"
proof -
  let ?us = "[\<lparr>up_addr = SockV4 (Ipv4 1 1 1 1) 53, up_transport = Tcp\<rparr>,
    \<lparr>up_addr = SockV4 (Ipv4 192 0 2 10) 5335, up_transport = Udp\<rparr>]"
  have d: "v4_text (Ipv4 1 1 1 1) 53 = lit ''1.1.1.1:53''" "v4_text (Ipv4 192 0 2 10) 5335 = lit ''192.0.2.10:5335''"
    by (simp_all add: v4_text_def digits.simps)
  have "list_all2 spells [lit ''tcp:'' @ v4_text (Ipv4 1 1 1 1) 53, v4_text (Ipv4 192 0 2 10) 5335] ?us"
    by (simp add: spells.intros del: lit_simps)
  from environment_upstreams [OF this, of "\<lambda>x. None" server_config_default] show ?thesis
    by (simp add: d)
qed

text \<open>Setting \<open>VANTA_DNS_UPSTREAMS\<close> to the empty string leaves the server without any upstream:
  the list becomes one empty entry, which suppresses the fallback and is then skipped.\<close>

lemma empty_upstreams_variable:
  "resolve_upstreams (apply_tls_env_overrides (getenv(''VANTA_DNS_UPSTREAMS'' \<mapsto> [])) c) = []"
  by (simp add: resolve_upstreams_def apply_tls_env_overrides_def push_upstreams_filter Let_def
      map_filter_simps upstream_of_spec_def trim_def split: option.split)

text \<open>Certificate and key in the environment switch TLS (and TCP) on, also where the file says
  \<open>tls_enabled = false\<close>.\<close>

lemma environment_switches_tls_on:
  "tls_enabled (apply_tls_env_overrides (getenv(''TLS_CERT'' \<mapsto> a, ''TLS_KEY'' \<mapsto> b))
     (c\<lparr>tls_enabled := False\<rparr>))
   \<and> tcp_enabled (apply_tls_env_overrides (getenv(''TLS_CERT'' \<mapsto> a, ''TLS_KEY'' \<mapsto> b))
     (c\<lparr>tls_enabled := False\<rparr>))"
  by (simp add: apply_tls_env_overrides_def Let_def split: option.split)

end
