(* ===== verification/DomainTrie.thy ===== *)
theory DomainTrie
  imports RustString
begin

text \<open>
  \<open>filter/trie.rs\<close>: the rule set of a block or allow list. Despite its name it is a pair of
  hash sets; \<open>AHashSet\<close> is the standard \<open>HashSet\<close> with another hash function, and a set
  here. Rules are read from hosts lines, AdGuard and Adblock Plus rules, wildcards and plain
  names; a name matches when it, or a parent domain of it, was inserted.
\<close>

section \<open>State and operations\<close>

record domain_trie =
  exact_matches :: "rstr set"
  wildcard_matches :: "rstr set"

definition trie_new :: domain_trie where
  "trie_new = \<lparr>exact_matches = {}, wildcard_matches = {}\<rparr>"

definition trie_normalize :: "unicode \<Rightarrow> rstr \<Rightarrow> rstr" where
  "trie_normalize U domain = to_lowercase U (trim_end_char (of_char CHR ''.'') (trim domain))"

definition comment_or_empty :: "rstr \<Rightarrow> bool" where
  "comment_or_empty s \<longleftrightarrow> s = [] \<or> starts_with (lit ''#'') s \<or> starts_with (lit ''!'') s"

text \<open>The \<open>let rule = if ... else ...\<close> of \<open>insert_rule\<close>.\<close>

definition rule_text :: "rstr \<Rightarrow> rstr" where
  "rule_text trimmed =
     (if starts_with (lit ''||'') trimmed then
        trim_end_char (of_char CHR ''^'')
          (case split_char (of_char CHR ''$'') (trim_start_str (lit ''||'') trimmed) of
             [] \<Rightarrow> [] | part # _ \<Rightarrow> part)
      else if starts_with (lit ''0.0.0.0 '') trimmed \<or> starts_with (lit ''127.0.0.1 '') trimmed then
        (case iter_nth (split_whitespace trimmed) 1 of None \<Rightarrow> [] | Some w \<Rightarrow> w)
      else if starts_with (lit ''*.'') trimmed then
        trim_start_str (lit ''*.'') trimmed
      else trimmed)"

definition insert_rule :: "unicode \<Rightarrow> rstr \<Rightarrow> domain_trie \<Rightarrow> domain_trie" where
  "insert_rule U raw_rule t =
     (let trimmed = trim raw_rule in
      if comment_or_empty trimmed then t
      else
        (let normalized = trie_normalize U (rule_text trimmed) in
         if normalized = [] then t
         else if starts_with (lit ''/'') normalized \<or> contains_char (of_char CHR '' '') normalized
           \<or> contains_char (of_char CHR ''='') normalized then t
         else t\<lparr>wildcard_matches := insert normalized (wildcard_matches t),
                exact_matches := insert normalized (exact_matches t)\<rparr>))"

text \<open>The \<open>while let Some(dot_idx) = current.find('.')\<close> loop of \<open>matches\<close>.\<close>

function parent_matches :: "rstr set \<Rightarrow> rstr \<Rightarrow> bool" where
  "parent_matches W current =
     (case find_char (of_char CHR ''.'') current of
        None \<Rightarrow> False
      | Some dot_idx \<Rightarrow>
          (let current = drop (dot_idx + 1) current
           in if current \<in> W then True else parent_matches W current))"
  by pat_completeness auto
termination
  by (relation "measure (\<lambda>(W, s). length s)") (auto dest: find_char_bound)

declare parent_matches.simps [simp del]

definition trie_matches :: "unicode \<Rightarrow> domain_trie \<Rightarrow> rstr \<Rightarrow> bool" where
  "trie_matches U t domain =
     (let normalized = trie_normalize U domain
      in if normalized \<in> exact_matches t then True
         else parent_matches (wildcard_matches t) normalized)"

definition trie_len :: "domain_trie \<Rightarrow> nat" where
  "trie_len t = card (exact_matches t)"

definition trie_is_empty :: "domain_trie \<Rightarrow> bool" where
  "trie_is_empty t \<longleftrightarrow> exact_matches t = {}"

section \<open>Specification\<close>

text \<open>
  The name a rule stands for, if any, and the names a set of rules covers: the rules
  themselves and everything below them.
\<close>

definition rule_name :: "unicode \<Rightarrow> rstr \<Rightarrow> rstr option" where
  "rule_name U raw =
     (let n = trie_normalize U (rule_text (trim raw)) in
      if comment_or_empty (trim raw) \<or> n = [] \<or> hd n = 47 \<or> 32 \<in> set n \<or> 61 \<in> set n
      then None else Some n)"

definition under :: "rstr \<Rightarrow> rstr \<Rightarrow> bool" where
  "under d p \<longleftrightarrow> d = p \<or> (\<exists>x. d = x @ lit ''.'' @ p)"

definition covers :: "rstr set \<Rightarrow> rstr \<Rightarrow> bool" where
  "covers R d \<longleftrightarrow> (\<exists>p \<in> R. under d p)"

definition trie_inv :: "domain_trie \<Rightarrow> bool" where
  "trie_inv t \<longleftrightarrow> wildcard_matches t = exact_matches t \<and> finite (exact_matches t)
     \<and> [] \<notin> exact_matches t"

section \<open>The contract of a rule store\<close>

locale rule_store =
  fixes new :: 't
    and ins :: "rstr \<Rightarrow> 't \<Rightarrow> 't"
    and hit :: "'t \<Rightarrow> rstr \<Rightarrow> bool"
    and size_of :: "'t \<Rightarrow> nat"
    and norm :: "rstr \<Rightarrow> rstr"
    and name_of :: "rstr \<Rightarrow> rstr option"
    and names :: "'t \<Rightarrow> rstr set"
    and inv :: "'t \<Rightarrow> bool"
  assumes new: "inv new" "names new = {}"
    and ins: "inv t \<Longrightarrow> inv (ins r t)"
      "inv t \<Longrightarrow> names (ins r t) = names t \<union> set_option (name_of r)"
    and hit: "inv t \<Longrightarrow> hit t d \<longleftrightarrow> covers (names t) (norm d)"
    and size_of: "inv t \<Longrightarrow> size_of t = card (names t) \<and> finite (names t)"
begin

lemma fold_inv [keeps]: "inv t \<Longrightarrow> inv (fold ins rs t)"
  by (induction rs arbitrary: t) (auto simp: ins)

lemma fold_names:
  "inv t \<Longrightarrow> names (fold ins rs t) = names t \<union> {n. \<exists>r \<in> set rs. name_of r = Some n}"
  by (induction rs arbitrary: t) (auto simp: ins)

lemma hit_mono: "inv t \<Longrightarrow> hit t d \<Longrightarrow> hit (fold ins rs t) d"
  by (auto simp: hit fold_inv fold_names covers_def)

lemma hit_loaded:
  "hit (fold ins rs new) d \<longleftrightarrow> (\<exists>r \<in> set rs. \<exists>n. name_of r = Some n \<and> under (norm d) n)"
  by (auto simp: hit fold_inv fold_names new covers_def)

lemma size_fold: "inv t \<Longrightarrow> size_of t \<le> size_of (fold ins rs t)"
  using size_of [of t] size_of [of "fold ins rs t"] fold_inv [of t rs] fold_names [of t rs]
  by (auto intro: card_mono)

end

section \<open>The trie keeps the contract\<close>

lemma parent_matches_iff: "parent_matches W s \<longleftrightarrow> (\<exists>x p. s = x @ 46 # p \<and> p \<in> W)"
proof (induction W s rule: parent_matches.induct)
  case (1 W s)
  show ?case
  proof (cases "find_char 46 s")
    case None
    then have "46 \<notin> set s" by (simp add: find_char_None)
    moreover have "\<not> parent_matches W s" using None by (subst parent_matches.simps) simp
    ultimately show ?thesis by auto
  next
    case (Some i)
    define rest where "rest = drop (Suc i) s"
    have s: "s = take i s @ 46 # rest" and t: "46 \<notin> set (take i s)"
      using find_char_Some [OF Some] by (auto simp: rest_def)
    have eq: "parent_matches W s \<longleftrightarrow> rest \<in> W \<or> parent_matches W rest"
      using Some by (subst parent_matches.simps) (auto simp: Let_def rest_def)
    have ih: "rest \<notin> W \<Longrightarrow> parent_matches W rest \<longleftrightarrow> (\<exists>x p. rest = x @ 46 # p \<and> p \<in> W)"
      using 1 [of i rest] Some by (simp add: rest_def)
    have split: "(\<exists>x. s = x @ 46 # p) \<longleftrightarrow> p = rest \<or> (\<exists>x. rest = x @ 46 # p)" for p
    proof
      assume "\<exists>x. s = x @ 46 # p"
      then obtain x where "take i s @ 46 # rest = x @ 46 # p" using s by metis
      then show "p = rest \<or> (\<exists>x. rest = x @ 46 # p)"
        using t by (auto simp: append_eq_append_conv2 Cons_eq_append_conv append_eq_Cons_conv)
    next
      assume "p = rest \<or> (\<exists>x. rest = x @ 46 # p)"
      then show "\<exists>x. s = x @ 46 # p" by (metis s append_Cons append_assoc)
    qed
    show ?thesis unfolding eq using ih split by metis
  qed
qed

lemma starts_with_char: "starts_with [c] s \<longleftrightarrow> s \<noteq> [] \<and> hd s = c"
  by (cases s) (auto simp: starts_with_def)

lemma insert_rule_name:
  "insert_rule U raw t = (case rule_name U raw of None \<Rightarrow> t
     | Some n \<Rightarrow> t\<lparr>wildcard_matches := insert n (wildcard_matches t),
         exact_matches := insert n (exact_matches t)\<rparr>)"
  by (auto simp: insert_rule_def rule_name_def Let_def contains_char_def lit_def starts_with_char)

lemma rule_name_nonempty: "rule_name U raw = Some n \<Longrightarrow> n \<noteq> []"
  by (auto simp: rule_name_def Let_def split: if_splits)

lemma trie_matches_covers:
  "trie_inv t \<Longrightarrow> trie_matches U t d \<longleftrightarrow> covers (exact_matches t) (trie_normalize U d)"
  by (auto simp: trie_matches_def Let_def parent_matches_iff trie_inv_def covers_def under_def lit_def)

interpretation trie: rule_store trie_new "insert_rule U" "trie_matches U" trie_len
  "trie_normalize U" "rule_name U" exact_matches trie_inv for U
proof unfold_locales
  show "trie_inv trie_new" "exact_matches trie_new = {}"
    by (simp_all add: trie_inv_def trie_new_def)
next
  fix t r d assume t: "trie_inv t"
  show "trie_inv (insert_rule U r t)"
    using t rule_name_nonempty [of U r]
    by (auto simp: insert_rule_name trie_inv_def split: option.split)
  show "exact_matches (insert_rule U r t) = exact_matches t \<union> set_option (rule_name U r)"
    by (auto simp: insert_rule_name split: option.split)
  show "trie_matches U t d \<longleftrightarrow> covers (exact_matches t) (trie_normalize U d)"
    using t by (rule trie_matches_covers)
  show "trie_len t = card (exact_matches t) \<and> finite (exact_matches t)"
    using t by (simp add: trie_len_def trie_inv_def)
qed

section \<open>Properties\<close>

text \<open>C14: a trie built from rule lines in any order matches a name exactly when one of the lines
  stands for the name itself or for a parent domain of it, with whole labels compared; and its
  length is the number of different names the lines stand for.\<close>

theorem trie_matching:
  "(trie_matches U (fold (insert_rule U) rules trie_new) d \<longleftrightarrow>
      (\<exists>r \<in> set rules. \<exists>n. rule_name U r = Some n \<and> under (trie_normalize U d) n))
   \<and> trie_len (fold (insert_rule U) rules trie_new) =
      card {n. \<exists>r \<in> set rules. rule_name U r = Some n}"
  using trie.hit_loaded [of U rules d] trie.size_of [OF trie.fold_inv [OF trie.new(1)], of U rules]
  by (simp add: trie.fold_names [OF trie.new(1)] trie.new(2))

end
