(* ===== verification/FilterEngine.thy ===== *)
theory FilterEngine
  imports DomainTrie
begin

text \<open>
  \<open>filter/engine.rs\<close>: the filter, an allow list and a block list; loading them from the text
  of list files; and the decision for a queried name, in which the allow list comes first.
\<close>

section \<open>State and operations\<close>

datatype filter_result = Allowed | AllowListMatched rstr | Blocked rstr

record filter_engine =
  allowlist :: domain_trie
  blocklist :: domain_trie

definition engine_new :: filter_engine where
  "engine_new = \<lparr>allowlist = trie_new, blocklist = trie_new\<rparr>"

definition load_allowlist_rule :: "unicode \<Rightarrow> rstr \<Rightarrow> filter_engine \<Rightarrow> filter_engine" where
  "load_allowlist_rule U rule e =
     (let clean = trim_start_str (lit ''@@'') rule
      in e\<lparr>allowlist := insert_rule U clean (allowlist e)\<rparr>)"

definition load_blocklist_rule :: "unicode \<Rightarrow> rstr \<Rightarrow> filter_engine \<Rightarrow> filter_engine" where
  "load_blocklist_rule U rule e = e\<lparr>blocklist := insert_rule U rule (blocklist e)\<rparr>"

text \<open>The bodies of the two \<open>for line in content.lines()\<close> loops, over the engine and \<open>count\<close>.\<close>

definition load_blocklist_line ::
  "unicode \<Rightarrow> rstr \<Rightarrow> filter_engine \<times> nat \<Rightarrow> filter_engine \<times> nat" where
  "load_blocklist_line U line = (\<lambda>(e, count).
     let trimmed = trim line in
     if starts_with (lit ''@@'') trimmed then (load_allowlist_rule U trimmed e, count)
     else if trimmed \<noteq> [] \<and> \<not> starts_with (lit ''#'') trimmed \<and> \<not> starts_with (lit ''!'') trimmed
     then (load_blocklist_rule U trimmed e, count + 1)
     else (e, count))"

definition load_blocklist_content ::
  "unicode \<Rightarrow> rstr \<Rightarrow> filter_engine \<Rightarrow> filter_engine \<times> nat" where
  "load_blocklist_content U content e = fold (load_blocklist_line U) (str_lines content) (e, 0)"

definition load_allowlist_line ::
  "unicode \<Rightarrow> rstr \<Rightarrow> filter_engine \<times> nat \<Rightarrow> filter_engine \<times> nat" where
  "load_allowlist_line U line = (\<lambda>(e, count).
     let trimmed = trim line in
     if trimmed \<noteq> [] \<and> \<not> starts_with (lit ''#'') trimmed \<and> \<not> starts_with (lit ''!'') trimmed
     then (load_allowlist_rule U trimmed e, count + 1)
     else (e, count))"

definition load_allowlist_content ::
  "unicode \<Rightarrow> rstr \<Rightarrow> filter_engine \<Rightarrow> filter_engine \<times> nat" where
  "load_allowlist_content U content e = fold (load_allowlist_line U) (str_lines content) (e, 0)"

definition evaluate :: "unicode \<Rightarrow> filter_engine \<Rightarrow> rstr \<Rightarrow> filter_result" where
  "evaluate U e domain =
     (let normalized = trie_normalize U domain in
      if trie_matches U (allowlist e) normalized then AllowListMatched normalized
      else if trie_matches U (blocklist e) normalized then Blocked normalized
      else Allowed)"

definition blocklist_rule_count :: "filter_engine \<Rightarrow> nat" where
  "blocklist_rule_count e = trie_len (blocklist e)"

definition allowlist_rule_count :: "filter_engine \<Rightarrow> nat" where
  "allowlist_rule_count e = trie_len (allowlist e)"

section \<open>Specification\<close>

definition engine_inv :: "filter_engine \<Rightarrow> bool" where
  "engine_inv e \<longleftrightarrow> trie_inv (allowlist e) \<and> trie_inv (blocklist e)"

definition allow_names :: "filter_engine \<Rightarrow> rstr set" where
  "allow_names e = exact_matches (allowlist e)"

definition block_names :: "filter_engine \<Rightarrow> rstr set" where
  "block_names e = exact_matches (blocklist e)"

text \<open>What the lines of a file contribute to the two lists.\<close>

definition allow_name_of :: "unicode \<Rightarrow> rstr \<Rightarrow> rstr option" where
  "allow_name_of U rule = rule_name U (trim_start_str (lit ''@@'') rule)"

definition exception_line :: "rstr \<Rightarrow> bool" where
  "exception_line line \<longleftrightarrow> starts_with (lit ''@@'') (trim line)"

definition rule_line :: "rstr \<Rightarrow> bool" where
  "rule_line line \<longleftrightarrow> \<not> comment_or_empty (trim line)"

definition file_allows :: "unicode \<Rightarrow> rstr \<Rightarrow> rstr set" where
  "file_allows U content =
     {n. \<exists>l \<in> set (str_lines content). exception_line l \<and> allow_name_of U (trim l) = Some n}"

definition file_blocks :: "unicode \<Rightarrow> rstr \<Rightarrow> rstr set" where
  "file_blocks U content =
     {n. \<exists>l \<in> set (str_lines content). \<not> exception_line l \<and> rule_name U l = Some n}"

definition allow_file_names :: "unicode \<Rightarrow> rstr \<Rightarrow> rstr set" where
  "allow_file_names U text =
     {n. \<exists>l \<in> set (str_lines text). rule_line l \<and> allow_name_of U (trim l) = Some n}"

section \<open>Lemmas\<close>

lemma engine_inv_new [keeps]: "engine_inv engine_new"
  by (simp add: engine_inv_def engine_new_def trie.new)

lemma rule_name_trim [simp]: "rule_name U (trim raw) = rule_name U raw"
  by (simp add: rule_name_def)

lemma rule_name_comment: "\<not> rule_line l \<Longrightarrow> rule_name U l = None"
  by (simp add: rule_name_def rule_line_def)

lemma load_allowlist_rule_names:
  assumes "engine_inv e"
  shows "engine_inv (load_allowlist_rule U r e)"
    "allow_names (load_allowlist_rule U r e) = allow_names e \<union> set_option (allow_name_of U r)"
    "block_names (load_allowlist_rule U r e) = block_names e"
  using assms
  by (simp_all add: engine_inv_def allow_names_def block_names_def load_allowlist_rule_def
      allow_name_of_def trie.ins Let_def)

lemma load_blocklist_rule_names:
  assumes "engine_inv e"
  shows "engine_inv (load_blocklist_rule U r e)"
    "block_names (load_blocklist_rule U r e) = block_names e \<union> set_option (rule_name U r)"
    "allow_names (load_blocklist_rule U r e) = allow_names e"
  using assms
  by (simp_all add: engine_inv_def allow_names_def block_names_def load_blocklist_rule_def
      trie.ins)

lemma load_blocklist_line_alt:
  "load_blocklist_line U l (e, n) =
     (if exception_line l then (load_allowlist_rule U (trim l) e, n)
      else if rule_line l then (load_blocklist_rule U (trim l) e, n + 1) else (e, n))"
  by (auto simp: load_blocklist_line_def exception_line_def rule_line_def comment_or_empty_def Let_def)

lemma load_allowlist_line_alt:
  "load_allowlist_line U l (e, n) =
     (if rule_line l then (load_allowlist_rule U (trim l) e, n + 1) else (e, n))"
  by (auto simp: load_allowlist_line_def rule_line_def comment_or_empty_def Let_def)

lemma load_blocklist_lines:
  "engine_inv e \<Longrightarrow> fold (load_blocklist_line U) ls (e, n) = (e', n') \<Longrightarrow>
    engine_inv e'
    \<and> allow_names e' = allow_names e \<union>
        {m. \<exists>l \<in> set ls. exception_line l \<and> allow_name_of U (trim l) = Some m}
    \<and> block_names e' = block_names e \<union>
        {m. \<exists>l \<in> set ls. \<not> exception_line l \<and> rule_name U l = Some m}
    \<and> n' = n + length (filter (\<lambda>l. rule_line l \<and> \<not> exception_line l) ls)"
proof (induction ls arbitrary: e n)
  case (Cons l ls)
  consider "exception_line l" | "\<not> exception_line l" "rule_line l"
    | "\<not> exception_line l" "\<not> rule_line l" by blast
  then show ?case
  proof cases
    case 1
    with Cons.prems have "fold (load_blocklist_line U) ls (load_allowlist_rule U (trim l) e, n) = (e', n')"
      by (simp add: load_blocklist_line_alt)
    from Cons.IH [OF load_allowlist_rule_names(1) [OF Cons.prems(1)] this] 1 show ?thesis
      by (auto simp: load_allowlist_rule_names [OF Cons.prems(1)])
  next
    case 2
    with Cons.prems have "fold (load_blocklist_line U) ls (load_blocklist_rule U (trim l) e, n + 1) = (e', n')"
      by (simp add: load_blocklist_line_alt)
    from Cons.IH [OF load_blocklist_rule_names(1) [OF Cons.prems(1)] this] 2 show ?thesis
      by (auto simp: load_blocklist_rule_names [OF Cons.prems(1)])
  next
    case 3
    with Cons.prems have "fold (load_blocklist_line U) ls (e, n) = (e', n')"
      by (simp add: load_blocklist_line_alt)
    from Cons.IH [OF Cons.prems(1) this] 3 show ?thesis
      by (auto simp: rule_name_comment)
  qed
qed simp

lemma load_allowlist_lines:
  "engine_inv e \<Longrightarrow> fold (load_allowlist_line U) ls (e, n) = (e', n') \<Longrightarrow>
    engine_inv e'
    \<and> allow_names e' = allow_names e \<union>
        {m. \<exists>l \<in> set ls. rule_line l \<and> allow_name_of U (trim l) = Some m}
    \<and> block_names e' = block_names e
    \<and> n' = n + length (filter rule_line ls)"
proof (induction ls arbitrary: e n)
  case (Cons l ls)
  show ?case
  proof (cases "rule_line l")
    case True
    with Cons.prems have "fold (load_allowlist_line U) ls (load_allowlist_rule U (trim l) e, n + 1) = (e', n')"
      by (simp add: load_allowlist_line_alt)
    from Cons.IH [OF load_allowlist_rule_names(1) [OF Cons.prems(1)] this] True show ?thesis
      by (auto simp: load_allowlist_rule_names [OF Cons.prems(1)])
  next
    case False
    with Cons.prems have "fold (load_allowlist_line U) ls (e, n) = (e', n')"
      by (simp add: load_allowlist_line_alt)
    from Cons.IH [OF Cons.prems(1) this] False show ?thesis by auto
  qed
qed simp

lemma load_blocklist_content_names:
  assumes "engine_inv e"
  shows "engine_inv (fst (load_blocklist_content U text e))"
    "allow_names (fst (load_blocklist_content U text e)) = allow_names e \<union> file_allows U text"
    "block_names (fst (load_blocklist_content U text e)) = block_names e \<union> file_blocks U text"
  using load_blocklist_lines [OF assms prod.collapse [symmetric], of U "str_lines text" 0]
  unfolding load_blocklist_content_def file_allows_def file_blocks_def by simp_all

lemma load_allowlist_content_names:
  assumes "engine_inv e"
  shows "engine_inv (fst (load_allowlist_content U text e))"
    "allow_names (fst (load_allowlist_content U text e)) = allow_names e \<union> allow_file_names U text"
    "block_names (fst (load_allowlist_content U text e)) = block_names e"
  using load_allowlist_lines [OF assms prod.collapse [symmetric], of U "str_lines text" 0]
  unfolding load_allowlist_content_def allow_file_names_def by simp_all

text \<open>
  The decision. Names are normalised twice; on ASCII names without blanks the second time
  changes nothing.
\<close>

lemma evaluate_covers:
  assumes "engine_inv e"
  shows "evaluate U e d =
    (let n = trie_normalize U d in
     if covers (allow_names e) (trie_normalize U n) then AllowListMatched n
     else if covers (block_names e) (trie_normalize U n) then Blocked n else Allowed)"
  using assms
  by (simp add: evaluate_def engine_inv_def trie_matches_covers allow_names_def block_names_def
      Let_def)

definition hostname :: "rstr \<Rightarrow> bool" where
  "hostname d \<longleftrightarrow> ascii d \<and> list_all (\<lambda>c. \<not> is_ws c) d"

lemma trim_end_char_sub:
  "list_all P s \<Longrightarrow> list_all P (trim_end_char d s)"
  by (auto simp: trim_end_char_def list_all_iff dest: set_dropWhileD)

lemma ascii_lower_ws [simp]: "is_ws (ascii_lower c) \<longleftrightarrow> is_ws c"
  by (auto simp: is_ws_def ascii_lower_def)

lemma ascii_lower_dot [simp]: "ascii_lower c = 46 \<longleftrightarrow> c = 46"
  by (auto simp: ascii_lower_def)

lemma trim_end_char_map_lower:
  "trim_end_char 46 (map ascii_lower s) = map ascii_lower (trim_end_char 46 s)"
  by (simp add: trim_end_char_def rev_map dropWhile_map comp_def)

lemma trim_end_char_idem [simp]: "trim_end_char d (trim_end_char d s) = trim_end_char d s"
  by (simp add: trim_end_char_def)

lemma normalize_hostname:
  assumes "hostname d"
  shows "trie_normalize U d = map ascii_lower (trim_end_char 46 d)"
  using assms by (simp add: trie_normalize_def hostname_def trim_no_ws to_lowercase_ascii
      ascii_def trim_end_char_sub)

lemma hostname_lower: "hostname d \<Longrightarrow> hostname (map ascii_lower (trim_end_char 46 d))"
  using trim_end_char_sub [of "\<lambda>c. c < 128" d 46] trim_end_char_sub [of "\<lambda>c. \<not> is_ws c" d 46]
  by (auto simp: hostname_def ascii_def list_all_iff ascii_lower_lt)

lemma hostname_normalize: "hostname d \<Longrightarrow> hostname (trie_normalize U d)"
  by (simp add: normalize_hostname hostname_lower)

lemma normalize_idem: "hostname d \<Longrightarrow> trie_normalize U (trie_normalize U d) = trie_normalize U d"
  by (simp add: normalize_hostname hostname_lower trim_end_char_map_lower)

section \<open>Properties\<close>

text \<open>C15: the verdict on a host name. The name is compared without its trailing dots and in lower
  case; a name that the allow list covers passes even if the block list covers it as well; a
  name that only the block list covers is blocked; every other name passes.\<close>

theorem evaluate_decides:
  assumes "engine_inv e" "hostname d"
  shows "evaluate U e d =
    (let n = map ascii_lower (trim_end_char 46 d) in
     if covers (allow_names e) n then AllowListMatched n
     else if covers (block_names e) n then Blocked n else Allowed)"
  using normalize_idem [OF assms(2), of U]
  by (simp add: evaluate_covers [OF assms(1)] normalize_hostname [OF assms(2)] Let_def)

definition sample_engine :: filter_engine where
  "sample_engine =
     \<lparr>allowlist = \<lparr>exact_matches = {lit ''ok.ads.io''}, wildcard_matches = {lit ''ok.ads.io''}\<rparr>,
      blocklist = \<lparr>exact_matches = {lit ''ads.io''}, wildcard_matches = {lit ''ads.io''}\<rparr>\<rparr>"

lemma sample_engine_inv: "engine_inv sample_engine"
  by (simp add: engine_inv_def trie_inv_def sample_engine_def lit_simps)

theorem evaluate_decides_witness:
  "\<forall>U. evaluate U sample_engine (lit ''X.Ads.IO.'') = Blocked (lit ''x.ads.io'')
    \<and> evaluate U sample_engine (lit ''OK.ads.io'') = AllowListMatched (lit ''ok.ads.io'')"
proof
  fix U
  have h: "hostname (lit ''X.Ads.IO.'')" "hostname (lit ''OK.ads.io'')"
    by (simp_all add: hostname_def ascii_def is_ws_def lit_simps)
  have "\<not> under (lit ''x.ads.io'') (lit ''ok.ads.io'')"
    by (auto simp: under_def lit_simps Cons_eq_append_conv)
  moreover have "under (lit ''x.ads.io'') (lit ''ads.io'')"
    unfolding under_def by (intro disjI2 exI [of _ "lit ''x''"]) (simp add: lit_simps)
  moreover have "under (lit ''ok.ads.io'') (lit ''ok.ads.io'')" by (simp add: under_def)
  moreover have "map ascii_lower (trim_end_char 46 (lit ''X.Ads.IO.'')) = lit ''x.ads.io''"
    "map ascii_lower (trim_end_char 46 (lit ''OK.ads.io'')) = lit ''ok.ads.io''"
    by (simp_all add: trim_end_char_def lit_simps ascii_lower_def)
  ultimately show "evaluate U sample_engine (lit ''X.Ads.IO.'') = Blocked (lit ''x.ads.io'')
    \<and> evaluate U sample_engine (lit ''OK.ads.io'') = AllowListMatched (lit ''ok.ads.io'')"
    using evaluate_decides [OF sample_engine_inv h(1)] evaluate_decides [OF sample_engine_inv h(2)]
    by (simp add: Let_def covers_def allow_names_def block_names_def sample_engine_def)
qed

text \<open>C29: loading a block list file adds exactly the names of its rule lines to the block list and
  those of its exception lines (\<open>@@\<close>) to the allow list, keeps what was there, and counts the
  lines that are neither comments nor exceptions, the rejected rules among them.\<close>

theorem load_blocklist_content_spec:
  assumes "engine_inv e"
  shows "engine_inv (fst (load_blocklist_content U text e))
    \<and> allow_names (fst (load_blocklist_content U text e)) = allow_names e \<union> file_allows U text
    \<and> block_names (fst (load_blocklist_content U text e)) = block_names e \<union> file_blocks U text
    \<and> snd (load_blocklist_content U text e) =
        length (filter (\<lambda>l. rule_line l \<and> \<not> exception_line l) (str_lines text))"
  using load_blocklist_lines [OF assms prod.collapse [symmetric], of U "str_lines text" 0]
  unfolding load_blocklist_content_def file_allows_def file_blocks_def by simp

theorem load_blocklist_content_spec_witness:
  "\<forall>U. snd (load_blocklist_content U (lit ''! list'' @ [10] @ lit ''/ads/'' @ [10] @ lit ''@@ok.io'') sample_engine) = 1"
proof
  fix U
  let ?t = "lit ''! list'' @ [10] @ lit ''/ads/'' @ [10] @ lit ''@@ok.io''"
  have "filter (\<lambda>l. rule_line l \<and> \<not> exception_line l) (str_lines ?t) = [lit ''/ads/'']"
    by (simp add: str_lines_def strip_cr_def rule_line_def exception_line_def comment_or_empty_def
        trim_def is_ws_def starts_with_def lit_simps)
  then show "snd (load_blocklist_content U ?t sample_engine) = 1"
    using load_blocklist_content_spec [OF sample_engine_inv, of U ?t] by simp
qed

end
