(* ===== verification/Server.thy ===== *)
theory Server
  imports Cache Config FilterEngine
begin

text \<open>
  \<open>main.rs\<close>: the service. Start-up loads the configuration and the lists; a query is parsed,
  filtered, looked up in the cache and forwarded, in that order, over UDP or over a TCP or
  TLS stream. The crates the service runs on come in one record, \<open>platform\<close>; the client's
  stream is a record \<open>stream_api\<close> of the three operations the server calls.
\<close>

section \<open>Surroundings\<close>

record ('c, 'w, 's) platform =
  pf_buf :: buf_api
  pf_unicode :: unicode
  pf_lru :: "'c cache_lru"
  pf_net :: "('w, 's) net_api"

text \<open>
  Nothing bounds the time an operation on the client's stream may take: a client that sends
  nothing, or does not take what it is sent, keeps it pending. \<open>ReadPending\<close> and \<open>WritePending\<close> are
  operations that never return; a handler that waits for one never returns either (\<open>Hang\<close>).
\<close>

datatype read_result = ReadDone "u8 list" | ReadEof string | ReadFailed string | ReadPending

datatype write_result = Written | WriteFailed string | WritePending

record 'w stream_api =
  strm_read_exact :: "nat \<Rightarrow> 'w \<Rightarrow> read_result \<times> 'w"
  strm_write_all :: "u8 list \<Rightarrow> 'w \<Rightarrow> write_result \<times> 'w"
  strm_flush :: "'w \<Rightarrow> write_result \<times> 'w"

section \<open>State\<close>

record 'c dns_service_state =
  svc_cache :: "'c dns_cache"
  svc_forwarder :: upstream_forwarder
  svc_filter :: filter_engine
  svc_block_mode :: rstr

section \<open>Start-up\<close>

definition resolve_path :: "rstr \<Rightarrow> rstr \<Rightarrow> rstr" where
  "resolve_path home_dir p =
     (case strip_prefix (lit ''$HOME'') p of Some stripped \<Rightarrow> home_dir @ stripped | None \<Rightarrow> p)"

definition load_blocklist_path ::
  "unicode \<Rightarrow> (rstr \<Rightarrow> string + rstr) \<Rightarrow> rstr \<Rightarrow> rstr \<Rightarrow> filter_engine \<Rightarrow> filter_engine" where
  "load_blocklist_path U read_file home_dir raw_path e =
     (case read_file (resolve_path home_dir raw_path) of
        Inr content \<Rightarrow> fst (load_blocklist_content U content e)
      | Inl _ \<Rightarrow> e)"

definition load_allowlist_path ::
  "unicode \<Rightarrow> (rstr \<Rightarrow> string + rstr) \<Rightarrow> rstr \<Rightarrow> rstr \<Rightarrow> filter_engine \<Rightarrow> filter_engine" where
  "load_allowlist_path U read_file home_dir raw_path e =
     (case read_file (resolve_path home_dir raw_path) of
        Inr content \<Rightarrow> fst (load_allowlist_content U content e)
      | Inl _ \<Rightarrow> e)"

definition load_filters ::
  "unicode \<Rightarrow> environment \<Rightarrow> (rstr \<Rightarrow> string + rstr) \<Rightarrow> server_config \<Rightarrow> filter_engine" where
  "load_filters U getenv read_file config =
     (let home_dir = (case getenv ''HOME'' of Some h \<Rightarrow> h | None \<Rightarrow> lit ''/tmp'');
          e = fold (load_blocklist_path U read_file home_dir) (blocklist_paths config) engine_new
      in fold (load_allowlist_path U read_file home_dir) (allowlist_paths config) e)"

definition effective_config ::
  "unicode \<Rightarrow> environment \<Rightarrow> toml_api \<Rightarrow> (rstr \<Rightarrow> string + rstr) \<Rightarrow> rstr \<Rightarrow> server_config" where
  "effective_config U getenv T read_file config_path =
     (case load_from_file U getenv T read_file config_path of
        Inr c \<Rightarrow> c
      | Inl _ \<Rightarrow> server_config_default)"

definition start_service ::
  "('c, 'w, 's) platform \<Rightarrow> environment \<Rightarrow> toml_api \<Rightarrow> (rstr \<Rightarrow> string + rstr) \<Rightarrow> rstr
     \<Rightarrow> 'c dns_service_state" where
  "start_service P getenv T read_file config_path =
     (let config = effective_config (pf_unicode P) getenv T read_file config_path
      in \<lparr>svc_cache = cache_new (pf_lru P) (unat (cache_capacity config))
            (unat (min_ttl_secs config)) (unat (max_ttl_secs config)),
          svc_forwarder = with_upstreams (resolve_upstreams config) 5,
          svc_filter = load_filters (pf_unicode P) getenv read_file config,
          svc_block_mode = block_mode config\<rparr>)"

section \<open>One query\<close>

text \<open>
  The three parts of \<open>resolve_dns_query\<close> that the lock of the cache separates: everything up
  to the cache lookup, the forwarding, and the insertion of the response. Between them the
  task waits, and other tasks may run.
\<close>

datatype front_result =
    Reply "u8 list option"
  | CacheHit "u8 list"
  | NeedUpstream dns_packet dns_question

text \<open>
  The lookup reads the clock once if there is an entry, for \<open>is_expired\<close>, and again for the
  remaining lifetime if the entry is live.
\<close>

definition lookup_cache ::
  "('c, 'w, 's) platform \<Rightarrow> dns_question \<Rightarrow> 'c dns_service_state \<Rightarrow> 'w
     \<Rightarrow> dns_packet option \<times> 'c dns_service_state \<times> 'w" where
  "lookup_cache P question st w =
     (let key = cache_key (pf_unicode P) (q_name question) (q_type question);
          found = fst (lru_get (pf_lru P) key (store (svc_cache st)));
          (now1, w) = (case found of None \<Rightarrow> (0, w) | Some entry \<Rightarrow> net_now (pf_net P) w);
          (now2, w) = (case found of
              None \<Rightarrow> (now1, w)
            | Some entry \<Rightarrow> if is_expired now1 entry then (now1, w) else net_now (pf_net P) w);
          (hit, c) = cache_get (pf_unicode P) (pf_lru P) now1 now2 (q_name question)
            (q_type question) (svc_cache st)
      in (hit, st\<lparr>svc_cache := c\<rparr>, w))"

definition blocked_reply :: "('c, 'w, 's) platform \<Rightarrow> 'c dns_service_state \<Rightarrow> dns_packet \<Rightarrow> u8 list" where
  "blocked_reply P st packet =
     to_bytes (pf_buf P) (build_blocked_response packet (svc_block_mode st = lit ''nxdomain''))"

definition resolve_front ::
  "('c, 'w, 's) platform \<Rightarrow> u8 list \<Rightarrow> 'c dns_service_state \<Rightarrow> 'w
     \<Rightarrow> (dns_error, front_result) outcome \<times> 'c dns_service_state \<times> 'w" where
  "resolve_front P query_bytes st w =
     (case packet_parse (pf_buf P) (pf_unicode P) query_bytes of
        Panic \<Rightarrow> (Panic, st, w)
      | Hang \<Rightarrow> (Hang, st, w)
      | Err _ \<Rightarrow> (Ok (Reply None), st, w)
      | Ok packet \<Rightarrow>
          (case questions packet of
             [] \<Rightarrow> (Ok (Reply None), st, w)
           | question # _ \<Rightarrow>
               (case evaluate (pf_unicode P) (svc_filter st) (q_name question) of
                  Blocked rule \<Rightarrow> (Ok (Reply (Some (blocked_reply P st packet))), st, w)
                | _ \<Rightarrow>
                    (case lookup_cache P question st w of
                       (Some cached_resp, st, w) \<Rightarrow>
                         (Ok (CacheHit (to_bytes (pf_buf P) cached_resp)), st, w)
                     | (None, st, w) \<Rightarrow> (Ok (NeedUpstream packet question), st, w)))))"

text \<open>\<open>if let Ok(resp_packet) = DnsPacket::parse(&resp_bytes) { ... insert ... }\<close>\<close>

definition store_response ::
  "('c, 'w, 's) platform \<Rightarrow> dns_question \<Rightarrow> u8 list \<Rightarrow> 'c dns_service_state \<Rightarrow> 'w
     \<Rightarrow> (dns_error, unit) outcome \<times> 'c dns_service_state \<times> 'w" where
  "store_response P question resp_bytes st w =
     (case packet_parse (pf_buf P) (pf_unicode P) resp_bytes of
        Panic \<Rightarrow> (Panic, st, w)
      | Hang \<Rightarrow> (Hang, st, w)
      | Err _ \<Rightarrow> (Ok (), st, w)
      | Ok resp_packet \<Rightarrow>
          (let (now, w) = net_now (pf_net P) w in
           case cache_insert (pf_unicode P) (pf_lru P) now (q_name question) (q_type question)
               resp_packet (svc_cache st) of
             Ok c \<Rightarrow> (Ok (), st\<lparr>svc_cache := c\<rparr>, w)
           | Err e \<Rightarrow> (Err e, st, w)
           | Panic \<Rightarrow> (Panic, st, w)
           | Hang \<Rightarrow> (Hang, st, w)))"

definition resolve_dns_query ::
  "('c, 'w, 's) platform \<Rightarrow> u8 list \<Rightarrow> 'c dns_service_state \<Rightarrow> 'w
     \<Rightarrow> (dns_error, u8 list option) outcome \<times> 'c dns_service_state \<times> 'w" where
  "resolve_dns_query P query_bytes st w =
     (case resolve_front P query_bytes st w of
        (Ok (Reply r), st, w) \<Rightarrow> (Ok r, st, w)
      | (Ok (CacheHit resp), st, w) \<Rightarrow> (Ok (Some resp), st, w)
      | (Ok (NeedUpstream packet question), st, w) \<Rightarrow>
          (case forward_raw (pf_net P) (svc_forwarder st) query_bytes w of
             (Inr resp_bytes, w) \<Rightarrow>
               (case store_response P question resp_bytes st w of
                  (Ok _, st, w) \<Rightarrow> (Ok (Some resp_bytes), st, w)
                | (Err e, st, w) \<Rightarrow> (Err e, st, w)
                | (Panic, st, w) \<Rightarrow> (Panic, st, w)
                | (Hang, st, w) \<Rightarrow> (Hang, st, w))
           | (Inl e, w) \<Rightarrow> (Ok None, st, w))
      | (Err e, st, w) \<Rightarrow> (Err e, st, w)
      | (Panic, st, w) \<Rightarrow> (Panic, st, w)
      | (Hang, st, w) \<Rightarrow> (Hang, st, w))"

text \<open>
  One turn of the UDP loop: a datagram is cut to the 4096 bytes of the buffer; the reply, if
  there is one, goes to its sender. A panic ends the task of this query only.
\<close>

definition udp_turn ::
  "('c, 'w, 's) platform \<Rightarrow> string + u8 list \<times> socket_addr \<Rightarrow> 'c dns_service_state \<Rightarrow> 'w
     \<Rightarrow> (u8 list \<times> socket_addr) option \<times> 'c dns_service_state \<times> 'w" where
  "udp_turn P received st w =
     (case received of
        Inl e \<Rightarrow> (None, st, w)
      | Inr (datagram, src) \<Rightarrow>
          (case resolve_dns_query P (take 4096 datagram) st w of
             (Ok (Some resp), st, w) \<Rightarrow> (Some (resp, src), st, w)
           | (_, st, w) \<Rightarrow> (None, st, w)))"

section \<open>TCP and TLS streams\<close>

definition write_framed :: "'w stream_api \<Rightarrow> u8 list \<Rightarrow> 'w \<Rightarrow> write_result \<times> 'w" where
  "write_framed S bytes w =
     (case strm_write_all S (bytes16 (word_of_nat (length bytes))) w of
        (Written, w) \<Rightarrow>
          (case strm_write_all S bytes w of
             (Written, w) \<Rightarrow> strm_flush S w
           | (r, w) \<Rightarrow> (r, w))
      | (r, w) \<Rightarrow> (r, w))"

text \<open>The two writes of \<open>serve_tcp_dns\<close>, without the flush.\<close>

definition send_framed :: "'w stream_api \<Rightarrow> u8 list \<Rightarrow> 'w \<Rightarrow> write_result \<times> 'w" where
  "send_framed S resp w =
     (case strm_write_all S (bytes16 (word_of_nat (length resp))) w of
        (Written, w) \<Rightarrow> strm_write_all S resp w
      | (r, w) \<Rightarrow> (r, w))"

datatype turn = Again | Closed

text \<open>A write followed by \<open>.await?\<close>, and one whose result is dropped (\<open>let _ = ....await\<close>).\<close>

definition try_write ::
  "write_result \<times> 'w \<Rightarrow> 'c \<Rightarrow> ('w \<Rightarrow> (string, turn) outcome \<times> 'c \<times> 'w)
     \<Rightarrow> (string, turn) outcome \<times> 'c \<times> 'w" where
  "try_write r st onward =
     (case r of
        (Written, w) \<Rightarrow> onward w
      | (WriteFailed e, w) \<Rightarrow> (Err e, st, w)
      | (WritePending, w) \<Rightarrow> (Hang, st, w))"

definition drop_write ::
  "write_result \<times> 'w \<Rightarrow> 'c \<Rightarrow> ('w \<Rightarrow> (string, turn) outcome \<times> 'c \<times> 'w)
     \<Rightarrow> (string, turn) outcome \<times> 'c \<times> 'w" where
  "drop_write r st onward =
     (case r of (WritePending, w) \<Rightarrow> (Hang, st, w) | (_, w) \<Rightarrow> onward w)"

definition servfail_reply :: "buf_api \<Rightarrow> dns_packet \<Rightarrow> u8 list" where
  "servfail_reply B packet =
     to_bytes B (packet\<lparr>header := (header packet)\<lparr>is_response := True, rcode := ServFail\<rparr>\<rparr>)"

text \<open>The body of the loop from the upstream forwarding on.\<close>

definition tcp_forward ::
  "('c, 'w, 's) platform \<Rightarrow> 'w stream_api \<Rightarrow> u8 list \<Rightarrow> dns_packet \<Rightarrow> dns_question
     \<Rightarrow> 'c dns_service_state \<Rightarrow> 'w \<Rightarrow> (string, turn) outcome \<times> 'c dns_service_state \<times> 'w" where
  "tcp_forward P S query packet question st w =
     (case forward_raw (pf_net P) (svc_forwarder st) query w of
        (Inr resp_bytes, w) \<Rightarrow>
          try_write (send_framed S resp_bytes w) st (\<lambda>w.
            case store_response P question resp_bytes st w of
              (Panic, st, w) \<Rightarrow> (Panic, st, w)
            | (Hang, st, w) \<Rightarrow> (Hang, st, w)
            | (_, st, w) \<Rightarrow> drop_write (strm_flush S w) st (\<lambda>w. (Ok Again, st, w)))
      | (Inl e, w) \<Rightarrow>
          (let resp = servfail_reply (pf_buf P) packet in
           drop_write (strm_write_all S (bytes16 (word_of_nat (length resp))) w) st (\<lambda>w.
           drop_write (strm_write_all S resp w) st (\<lambda>w.
           drop_write (strm_flush S w) st (\<lambda>w. (Ok Again, st, w))))))"

text \<open>The body of the loop once a message has been read.\<close>

definition tcp_answer ::
  "('c, 'w, 's) platform \<Rightarrow> 'w stream_api \<Rightarrow> u8 list \<Rightarrow> 'c dns_service_state \<Rightarrow> 'w
     \<Rightarrow> (string, turn) outcome \<times> 'c dns_service_state \<times> 'w" where
  "tcp_answer P S query st w =
     (case packet_parse (pf_buf P) (pf_unicode P) query of
        Panic \<Rightarrow> (Panic, st, w)
      | Hang \<Rightarrow> (Hang, st, w)
      | Err _ \<Rightarrow> (Ok Again, st, w)
      | Ok packet \<Rightarrow>
          (case questions packet of
             [] \<Rightarrow> (Ok Again, st, w)
           | question # _ \<Rightarrow>
               (case evaluate (pf_unicode P) (svc_filter st) (q_name question) of
                  Blocked rule \<Rightarrow>
                    try_write (send_framed S (blocked_reply P st packet) w) st (\<lambda>w. (Ok Again, st, w))
                | _ \<Rightarrow>
                    (case lookup_cache P question st w of
                       (Some cached_resp, st, w) \<Rightarrow>
                         try_write (send_framed S (to_bytes (pf_buf P) cached_resp) w) st
                           (\<lambda>w. (Ok Again, st, w))
                     | (None, st, w) \<Rightarrow> tcp_forward P S query packet question st w))))"

text \<open>The head of the loop: the length and the message; \<open>None\<close> where the loop ends with \<open>Ok(())\<close>.\<close>

definition read_message :: "'w stream_api \<Rightarrow> 'w \<Rightarrow> (string, u8 list option) outcome \<times> 'w" where
  "read_message S w =
     (case strm_read_exact S 2 w of
        (ReadEof _, w) \<Rightarrow> (Ok None, w)
      | (ReadFailed e, w) \<Rightarrow> (Err e, w)
      | (ReadPending, w) \<Rightarrow> (Hang, w)
      | (ReadDone len_buf, w) \<Rightarrow>
          (let msg_len = unat (be16 (len_buf ! 0) (len_buf ! 1)) in
           if msg_len = 0 \<or> 65535 < msg_len then (Ok None, w)
           else
             (case strm_read_exact S msg_len w of
                (ReadEof e, w) \<Rightarrow> (Err e, w)
              | (ReadFailed e, w) \<Rightarrow> (Err e, w)
              | (ReadPending, w) \<Rightarrow> (Hang, w)
              | (ReadDone query, w) \<Rightarrow> (Ok (Some query), w))))"

definition tcp_turn ::
  "('c, 'w, 's) platform \<Rightarrow> 'w stream_api \<Rightarrow> 'c dns_service_state \<Rightarrow> 'w
     \<Rightarrow> (string, turn) outcome \<times> 'c dns_service_state \<times> 'w" where
  "tcp_turn P S st w =
     (case read_message S w of
        (Ok None, w) \<Rightarrow> (Ok Closed, st, w)
      | (Ok (Some query), w) \<Rightarrow> tcp_answer P S query st w
      | (Err e, w) \<Rightarrow> (Err e, st, w)
      | (Panic, w) \<Rightarrow> (Panic, st, w)
      | (Hang, w) \<Rightarrow> (Hang, st, w))"

text \<open>
  The loop; \<open>None\<close> is a connection that is served for ever, \<open>Hang\<close> one that waits for its client for
  ever.
\<close>

partial_function (option) serve_tcp_dns ::
  "('c, 'w, 's) platform \<Rightarrow> 'w stream_api \<Rightarrow> 'c dns_service_state \<Rightarrow> 'w
     \<Rightarrow> ((string, unit) outcome \<times> 'c dns_service_state \<times> 'w) option" where
  "serve_tcp_dns P S st w =
     (case tcp_turn P S st w of
        (Ok Again, st, w) \<Rightarrow> serve_tcp_dns P S st w
      | (Ok Closed, st, w) \<Rightarrow> Some (Ok (), st, w)
      | (Err e, st, w) \<Rightarrow> Some (Err e, st, w)
      | (Panic, st, w) \<Rightarrow> Some (Panic, st, w)
      | (Hang, st, w) \<Rightarrow> Some (Hang, st, w))"

section \<open>The \<open>TestDomain\<close> command\<close>

definition test_domain :: "unicode \<Rightarrow> rstr \<Rightarrow> filter_result" where
  "test_domain U domain =
     (let engine = engine_new;
          engine = load_blocklist_rule U (lit ''||doubleclick.net^'') engine;
          engine = load_blocklist_rule U (lit ''||googlesyndication.com^'') engine;
          engine = load_allowlist_rule U (lit ''@@allowed.doubleclick.net'') engine
      in evaluate U engine domain)"

end
