(* ===== verification/Service.thy ===== *)
theory Service
  imports Server
begin

text \<open>
  What the service of \<open>main.rs\<close> guarantees: the invariant of its shared state (a well-formed
  cache that holds nothing but upstream answers to names the filter lets through), kept by
  datagrams, connections and whole streams; the bytes a client is sent; and the end of a
  connection. The locale \<open>service_libs\<close> combines the laws of the two libraries.
\<close>

section \<open>Specification\<close>

definition same_settings :: "'c dns_service_state \<Rightarrow> 'c dns_service_state \<Rightarrow> bool" where
  "same_settings st st' \<longleftrightarrow> svc_forwarder st' = svc_forwarder st \<and> svc_filter st' = svc_filter st
     \<and> svc_block_mode st' = svc_block_mode st"

definition is_blocked :: "unicode \<Rightarrow> filter_engine \<Rightarrow> rstr \<Rightarrow> bool" where
  "is_blocked U e name \<longleftrightarrow> (case evaluate U e name of Blocked rule \<Rightarrow> True | _ \<Rightarrow> False)"

text \<open>
  \<open>asks\<close>: the bytes are a query whose first question is this one. \<open>answered\<close>: an upstream of the
  service once answered so to this query. \<open>from_upstream\<close>: a packet
  cached under this key is what an upstream of the service once answered, byte for byte, to
  such a query for a name that the filter lets through.
\<close>

definition asks :: "('c, 'w, 's) platform \<Rightarrow> u8 list \<Rightarrow> dns_packet \<Rightarrow> dns_question \<Rightarrow> bool" where
  "asks P bytes packet question \<longleftrightarrow>
     packet_parse (pf_buf P) (pf_unicode P) bytes = Ok packet
     \<and> (\<exists>rest. questions packet = question # rest)"

definition answered :: "('c, 'w, 's) platform \<Rightarrow> 'c dns_service_state \<Rightarrow> u8 list \<Rightarrow> u8 list \<Rightarrow> bool" where
  "answered P st query resp \<longleftrightarrow> (\<exists>u \<in> set (upstreams (svc_forwarder st)). \<exists>w w'.
     forward_one (pf_net P) (svc_forwarder st) query u w = (Inr resp, w'))"

definition from_upstream ::
  "('c, 'w, 's) platform \<Rightarrow> 'c dns_service_state \<Rightarrow> cache_key \<Rightarrow> dns_packet \<Rightarrow> bool" where
  "from_upstream P st key p \<longleftrightarrow>
     (\<exists>query packet question resp. asks P query packet question
        \<and> \<not> is_blocked (pf_unicode P) (svc_filter st) (q_name question)
        \<and> key = cache_key (pf_unicode P) (q_name question) (q_type question)
        \<and> answered P st query resp
        \<and> packet_parse (pf_buf P) (pf_unicode P) resp = Ok p)"

definition svc_inv ::
  "('c, 'w, 's) platform \<Rightarrow> ('c \<Rightarrow> (cache_key \<times> cached_response) list) \<Rightarrow> ('c \<Rightarrow> bool)
     \<Rightarrow> 'c dns_service_state \<Rightarrow> bool" where
  "svc_inv P entries valid st \<longleftrightarrow>
     cache_inv entries valid (svc_cache st) \<and> engine_inv (svc_filter st)
     \<and> (\<forall>k e. cache_map entries (svc_cache st) k = Some e \<longrightarrow> from_upstream P st k (cr_packet e))"

section \<open>Loading the lists\<close>

text \<open>The texts of those files of a list that can be read.\<close>

definition readable :: "(rstr \<Rightarrow> string + rstr) \<Rightarrow> rstr \<Rightarrow> rstr list \<Rightarrow> rstr set" where
  "readable read_file home_dir paths =
     {content. \<exists>p \<in> set paths. read_file (resolve_path home_dir p) = Inr content}"

lemma load_blocklist_paths:
  "engine_inv e \<Longrightarrow> engine_inv (fold (load_blocklist_path U rd h) ps e)
    \<and> block_names (fold (load_blocklist_path U rd h) ps e) =
        block_names e \<union> \<Union> (file_blocks U ` readable rd h ps)
    \<and> allow_names (fold (load_blocklist_path U rd h) ps e) =
        allow_names e \<union> \<Union> (file_allows U ` readable rd h ps)"
proof (induction ps arbitrary: e)
  case (Cons p ps)
  show ?case
  proof (cases "rd (resolve_path h p)")
    case (Inl x)
    then have "readable rd h (p # ps) = readable rd h ps" by (auto simp: readable_def)
    with Inl Cons show ?thesis by (simp add: load_blocklist_path_def)
  next
    case (Inr content)
    then have "readable rd h (p # ps) = insert content (readable rd h ps)" by (auto simp: readable_def)
    with Inr Cons.IH [OF load_blocklist_content_names(1) [OF Cons.prems, of U content]]
      load_blocklist_content_names [OF Cons.prems, of U content]
    show ?thesis by (simp add: load_blocklist_path_def Un_assoc)
  qed
qed (simp add: readable_def)

lemma load_allowlist_paths:
  "engine_inv e \<Longrightarrow> engine_inv (fold (load_allowlist_path U rd h) ps e)
    \<and> block_names (fold (load_allowlist_path U rd h) ps e) = block_names e
    \<and> allow_names (fold (load_allowlist_path U rd h) ps e) =
        allow_names e \<union> \<Union> (allow_file_names U ` readable rd h ps)"
proof (induction ps arbitrary: e)
  case (Cons p ps)
  show ?case
  proof (cases "rd (resolve_path h p)")
    case (Inl x)
    then have "readable rd h (p # ps) = readable rd h ps" by (auto simp: readable_def)
    with Inl Cons show ?thesis by (simp add: load_allowlist_path_def)
  next
    case (Inr content)
    then have "readable rd h (p # ps) = insert content (readable rd h ps)" by (auto simp: readable_def)
    with Inr Cons.IH [OF load_allowlist_content_names(1) [OF Cons.prems, of U content]]
      load_allowlist_content_names [OF Cons.prems, of U content]
    show ?thesis by (simp add: load_allowlist_path_def Un_assoc)
  qed
qed (simp add: readable_def)

definition home_of :: "environment \<Rightarrow> rstr" where
  "home_of getenv = (case getenv ''HOME'' of Some h \<Rightarrow> h | None \<Rightarrow> lit ''/tmp'')"

lemma load_filters_inv: "engine_inv (load_filters U g rd c)"
  using load_allowlist_paths [OF conjunct1 [OF load_blocklist_paths [OF engine_inv_new]]]
  by (simp add: load_filters_def Let_def)

section \<open>Streams\<close>

text \<open>
  The handler of a connection makes the same decision as the handler of a datagram: up to the
  forwarding it is \<open>resolve_front\<close> with the reply framed.
\<close>

lemma tcp_answer_front:
  "tcp_answer P S query st w =
     (case resolve_front P query st w of
        (Ok (Reply None), st, w) \<Rightarrow> (Ok Again, st, w)
      | (Ok (Reply (Some r)), st, w) \<Rightarrow>
          try_write (send_framed S r w) st (\<lambda>w. (Ok Again, st, w))
      | (Ok (CacheHit r), st, w) \<Rightarrow>
          try_write (send_framed S r w) st (\<lambda>w. (Ok Again, st, w))
      | (Ok (NeedUpstream packet question), st, w) \<Rightarrow> tcp_forward P S query packet question st w
      | (Err e, st, w) \<Rightarrow> (Err '''', st, w)
      | (Panic, st, w) \<Rightarrow> (Panic, st, w)
      | (Hang, st, w) \<Rightarrow> (Hang, st, w))"
  by (simp add: tcp_answer_def resolve_front_def
      split: outcome.split list.split filter_result.split option.split prod.split)

text \<open>
  \<open>responsive\<close>: no operation on the stream stays pending. \<open>finite_input\<close>: \<open>avail\<close> bounds the bytes
  the client may still send; reading uses it up, and nothing else adds to it. \<open>records_output\<close>:
  writing succeeds and \<open>sent\<close> is what the client has been sent; nothing else writes to it.
\<close>

definition responsive :: "'w stream_api \<Rightarrow> bool" where
  "responsive S \<longleftrightarrow> (\<forall>n w. fst (strm_read_exact S n w) \<noteq> ReadPending)
     \<and> (\<forall>bs w. fst (strm_write_all S bs w) \<noteq> WritePending)
     \<and> (\<forall>w. fst (strm_flush S w) \<noteq> WritePending)"

definition finite_input :: "'w stream_api \<Rightarrow> ('w, 's) net_api \<Rightarrow> ('w \<Rightarrow> nat) \<Rightarrow> bool" where
  "finite_input S N avail \<longleftrightarrow>
     (\<forall>n w bs w'. strm_read_exact S n w = (ReadDone bs, w') \<longrightarrow> length bs = n \<and> avail w' + n \<le> avail w)
     \<and> (\<forall>bs w. avail (snd (strm_write_all S bs w)) \<le> avail w)
     \<and> (\<forall>w. avail (snd (strm_flush S w)) \<le> avail w)
     \<and> net_keeps N (\<lambda>w w'. avail w' \<le> avail w)"

definition records_output :: "'w stream_api \<Rightarrow> ('w, 's) net_api \<Rightarrow> ('w \<Rightarrow> u8 list) \<Rightarrow> bool" where
  "records_output S N sent \<longleftrightarrow>
     (\<forall>bs w. fst (strm_write_all S bs w) = Written \<and> sent (snd (strm_write_all S bs w)) = sent w @ bs)
     \<and> (\<forall>w. fst (strm_flush S w) = Written \<and> sent (snd (strm_flush S w)) = sent w)
     \<and> net_keeps N (\<lambda>w w'. sent w' = sent w)"

definition frame :: "u8 list \<Rightarrow> u8 list" where
  "frame bs = bytes16 (word_of_nat (length bs)) @ bs"

lemma records_output_keeps:
  assumes "records_output S N sent"
  shows "net_keeps N (\<lambda>w w'. sent w' = sent w)" "transp (\<lambda>w w'. sent w' = sent w)"
    "reflp (\<lambda>w w'. sent w' = sent w)"
  using assms by (simp_all add: records_output_def reflp_def transp_def)

lemma forward_raw_sent:
  "records_output S N sent \<Longrightarrow> sent (snd (forward_raw N f q w)) = sent w"
  by (rule forward_raw_keeps [OF records_output_keeps(3,2,1)])

lemma lookup_cache_get:
  obtains t1 t2 where "fst (lookup_cache P question st w) =
      fst (cache_get (pf_unicode P) (pf_lru P) t1 t2 (q_name question) (q_type question) (svc_cache st))"
    "fst (snd (lookup_cache P question st w)) = st\<lparr>svc_cache :=
      snd (cache_get (pf_unicode P) (pf_lru P) t1 t2 (q_name question) (q_type question) (svc_cache st))\<rparr>"
  unfolding lookup_cache_def Let_def split_beta fst_conv snd_conv by blast

lemma lookup_store_world:
  assumes "net_keeps (pf_net P) R" "transp R" "reflp R"
  shows "R w (snd (snd (lookup_cache P question st w)))"
    "R w (snd (snd (store_response P question resp st w)))"
proof -
  have now: "R w (snd (net_now (pf_net P) w))" for w
    using assms(1) by (simp add: net_keeps_def)
  show "R w (snd (snd (lookup_cache P question st w)))"
    using now [of w] reflpD [OF assms(3)] transpD [OF assms(2) now now]
    by (auto simp: lookup_cache_def split_beta Let_def split: option.split)
  show "R w (snd (snd (store_response P question resp st w)))"
    using now [of w] reflpD [OF assms(3)]
    by (auto simp: store_response_def split_beta Let_def split: outcome.split)
qed

lemma resolve_front_world:
  assumes "net_keeps (pf_net P) R" "transp R" "reflp R"
  shows "R w (snd (snd (resolve_front P query st w)))"
proof -
  have lc: "lookup_cache P question st w = (hit, st1, w1) \<Longrightarrow> R w w1" for question hit st1 w1
    using lookup_store_world(1) [OF assms, of w question st] by simp
  show ?thesis
    using reflpD [OF assms(3), of w]
    by (auto simp: resolve_front_def dest: lc split: outcome.split list.split filter_result.split
        option.split prod.split)
qed

text \<open>Relations that the stream and the network keep.\<close>

definition writes_keep :: "'w stream_api \<Rightarrow> ('w \<Rightarrow> 'w \<Rightarrow> bool) \<Rightarrow> bool" where
  "writes_keep S R \<longleftrightarrow>
     (\<forall>bs w. R w (snd (strm_write_all S bs w))) \<and> (\<forall>w. R w (snd (strm_flush S w)))"

lemma responsive_writes:
  assumes "responsive S"
  shows "fst (strm_write_all S bs w) \<noteq> WritePending" "fst (strm_flush S w) \<noteq> WritePending"
    "fst (send_framed S r w) \<noteq> WritePending"
  using assms by (auto simp: responsive_def send_framed_def split: prod.split write_result.split)
    (metis fst_conv)+

lemma read_message_outcome:
  "fst (read_message S w) \<noteq> Panic" "responsive S \<Longrightarrow> fst (read_message S w) \<noteq> Hang"
  by (auto simp: responsive_def read_message_def Let_def split: prod.split read_result.split)
    (metis fst_conv)+

lemma send_framed_keeps:
  assumes "transp R" "writes_keep S R" "send_framed S r w = (x, w')"
  shows "R w w'"
proof -
  have wr: "strm_write_all S bs w = (x, w') \<Longrightarrow> R w w'" for bs x w w'
    using assms(2) unfolding writes_keep_def by (metis snd_conv)
  obtain y w1 where 1: "strm_write_all S (bytes16 (word_of_nat (length r))) w = (y, w1)" by fastforce
  obtain z w2 where 2: "strm_write_all S r w1 = (z, w2)" by fastforce
  show ?thesis
    using wr [OF 1] transpD [OF assms(1) wr [OF 1] wr [OF 2]] 1 2 assms(3)
    by (auto simp: send_framed_def split: write_result.splits)
qed

lemma try_writeE:
  assumes "try_write rw st k = (r, st', w')"
  obtains (sent) w where "rw = (Written, w)" "k w = (r, st', w')"
    | (failed) e where "rw = (WriteFailed e, w')" "r = Err e" "st' = st"
    | (pending) "rw = (WritePending, w')" "r = Hang" "st' = st"
  using assms by (cases rw; cases "fst rw") (auto simp: try_write_def)

lemma drop_writeE:
  assumes "drop_write rw st k = (r, st', w')"
  obtains (on) "fst rw \<noteq> WritePending" "k (snd rw) = (r, st', w')"
    | (pending) "fst rw = WritePending" "w' = snd rw" "r = Hang" "st' = st"
  using assms by (cases rw; cases "fst rw") (auto simp: drop_write_def)

lemma tcp_forward_keeps:
  assumes R: "reflp R" "transp R" "net_keeps (pf_net P) R" "writes_keep S R"
    and t: "tcp_forward P S query packet question st w = (r, st', w')"
  shows "R w w'"
proof -
  have wr: "R w (snd (strm_write_all S bs v))" and fl: "R w (snd (strm_flush S v))" if "R w v" for bs v
    using R(4) transpD [OF R(2) that] by (simp_all add: writes_keep_def)
  have sr: "R w (snd (snd (store_response P question resp st v)))" if "R w v" for question resp st v
    using transpD [OF R(2) that lookup_store_world(2) [OF R(3,2,1)]] .
  have sf: "R w (snd (send_framed S resp v))" if "R w v" for resp v
    using transpD [OF R(2) that send_framed_keeps [OF R(2,4) prod.collapse [symmetric]]] .
  obtain u w1 where u: "forward_raw (pf_net P) (svc_forwarder st) query w = (u, w1)" by fastforce
  then have w1: "R w w1"
    using forward_raw_keeps [OF R(1-3), of w "svc_forwarder st" query] by simp
  show ?thesis
  proof (cases u)
    case (Inr resp)
    obtain v w2 where v: "send_framed S resp w1 = (v, w2)" by fastforce
    obtain x st2 w3 where x: "store_response P question resp st w2 = (x, st2, w3)"
      by (metis prod.collapse)
    have w2: "R w w2" using sf [OF w1, of resp] v by simp
    have w3: "R w w3" using sr [OF w2, of question resp st] x by simp
    show ?thesis using t u Inr v x w2 w3 fl [OF w3]
      by (auto simp: tcp_forward_def elim!: try_writeE drop_writeE split: outcome.splits)
  next
    case (Inl e)
    then show ?thesis using t u wr fl w1
      by (auto simp: tcp_forward_def Let_def elim!: drop_writeE)
  qed
qed

lemma tcp_answer_keeps:
  assumes R: "reflp R" "transp R" "net_keeps (pf_net P) R" "writes_keep S R"
    and t: "tcp_answer P S query st w = (r, st', w')"
  shows "R w w'"
proof -
  obtain x st1 w1 where x: "resolve_front P query st w = (x, st1, w1)" by (metis prod.collapse)
  have w1: "R w w1" using resolve_front_world [OF R(3,2,1), of w query st] by (simp add: x)
  have sf: "send_framed S reply w1 = (v, w2) \<Longrightarrow> R w w2" for reply v w2
    using transpD [OF R(2) w1 send_framed_keeps [OF R(2,4)]] .
  have fw: "tcp_forward P S query packet question st1 w1 = (v, st2, w2) \<Longrightarrow> R w w2"
    for packet question v st2 w2
    using transpD [OF R(2) w1 tcp_forward_keeps [OF R]] .
  show ?thesis using t w1
    by (auto simp: tcp_answer_front x elim!: try_writeE dest: sf fw
        split: outcome.splits front_result.splits option.splits)
qed

lemma finite_input_keeps:
  assumes "finite_input S N avail"
  shows "reflp (\<lambda>w w'. avail w' \<le> avail w)" "transp (\<lambda>w w'. avail w' \<le> avail w)"
    "net_keeps N (\<lambda>w w'. avail w' \<le> avail w)" "writes_keep S (\<lambda>w w'. avail w' \<le> avail w)"
  using assms by (auto simp: finite_input_def writes_keep_def reflp_def transp_def)

lemma tcp_turn_avail:
  assumes f: "finite_input S (pf_net P) avail" and t: "tcp_turn P S st w = (Ok Again, st', w')"
  shows "avail w' < avail w"
proof -
  have rd: "avail w2 + n \<le> avail w1" if "strm_read_exact S n w1 = (ReadDone bs, w2)" for n w1 w2 bs
    using f that unfolding finite_input_def by blast
  obtain bs w1 n q w2 where r: "strm_read_exact S 2 w = (ReadDone bs, w1)"
      "strm_read_exact S n w1 = (ReadDone q, w2)" "tcp_answer P S q st w2 = (Ok Again, st', w')"
    using t by (auto simp: tcp_turn_def read_message_def Let_def
        split: prod.splits outcome.splits option.splits read_result.splits if_splits)
  show ?thesis
    using rd [OF r(1)] rd [OF r(2)] tcp_answer_keeps [OF finite_input_keeps [OF f] r(3)] by simp
qed

text \<open>So a client that sends finitely many bytes is not served for ever.\<close>

lemma serve_tcp_dns_returns:
  assumes f: "finite_input S (pf_net P) avail"
  shows "\<exists>r. serve_tcp_dns P S st w = Some r"
proof (induction "avail w" arbitrary: st w rule: less_induct)
  case less
  obtain x st1 w1 where t: "tcp_turn P S st w = (x, st1, w1)" by (metis prod.collapse)
  show ?case
  proof (cases "x = Ok Again")
    case True
    then show ?thesis
      using less [OF tcp_turn_avail [OF f t [unfolded True]], of st1] t
      by (subst serve_tcp_dns.simps) simp
  next
    case False
    then show ?thesis using t
      by (subst serve_tcp_dns.simps) (auto split: outcome.split turn.split)
  qed
qed

text \<open>A frame can be read back: its first two bytes are the length of the rest, for every reply
  shorter than 65536 bytes.\<close>

lemma frame_decodes:
  assumes "length bs < 65536"
  shows "take 2 (frame bs) = [frame bs ! 0, frame bs ! 1]
    \<and> unat (be16 (frame bs ! 0) (frame bs ! 1)) = length bs \<and> drop 2 (frame bs) = bs"
proof -
  have "take 2 (bytes16 w) = [bytes16 w ! 0, bytes16 w ! 1]" "frame bs ! 0 = bytes16 (word_of_nat (length bs)) ! 0"
    "frame bs ! 1 = bytes16 (word_of_nat (length bs)) ! 1" for w
    by (simp_all add: bytes16_def frame_def)
  then show ?thesis using assms be16_bytes16 [of "word_of_nat (length bs)"]
    by (simp add: frame_def)
qed

text \<open>What the client receives.\<close>

lemma send_framed_sent:
  assumes "records_output S N sent"
  shows "fst (send_framed S r w) = Written" "sent (snd (send_framed S r w)) = sent w @ frame r"
proof -
  have wr: "x = Written \<and> sent w' = sent w @ bs" if "strm_write_all S bs w = (x, w')" for bs w x w'
    using assms that unfolding records_output_def by (metis fst_conv snd_conv)
  obtain y w1 where 1: "strm_write_all S (bytes16 (word_of_nat (length r))) w = (y, w1)" by fastforce
  obtain z w2 where 2: "strm_write_all S r w1 = (z, w2)" by fastforce
  show "fst (send_framed S r w) = Written" "sent (snd (send_framed S r w)) = sent w @ frame r"
    using wr [OF 1] wr [OF 2] 1 2 by (simp_all add: send_framed_def frame_def)
qed

lemma records_output_drop:
  assumes "records_output S N sent"
  shows "drop_write (strm_write_all S bs w) st k = k (snd (strm_write_all S bs w))"
    "drop_write (strm_flush S w) st k = k (snd (strm_flush S w))"
proof -
  have "drop_write rw st k = k (snd rw)" if "fst rw = Written" for rw
    using that by (cases rw) (simp add: drop_write_def)
  then show "drop_write (strm_write_all S bs w) st k = k (snd (strm_write_all S bs w))"
    "drop_write (strm_flush S w) st k = k (snd (strm_flush S w))"
    using assms by (simp_all add: records_output_def)
qed

lemma tcp_forward_sent:
  assumes r: "records_output S (pf_net P) sent"
    and u: "forward_raw (pf_net P) (svc_forwarder st) query w = (u, w1)"
  shows "sent (snd (snd (tcp_forward P S query packet question st w))) =
    sent w @ frame (case u of Inr resp \<Rightarrow> resp | Inl e \<Rightarrow> servfail_reply (pf_buf P) packet)"
proof -
  have wr: "sent (snd (strm_write_all S bs w)) = sent w @ bs"
    and fl: "sent (snd (strm_flush S w)) = sent w"
    for bs w
    using r by (simp_all add: records_output_def)
  have sr: "sent (snd (snd (store_response P question resp st w))) = sent w" for resp w
    by (rule lookup_store_world(2) [OF records_output_keeps [OF r]])
  have w1: "sent w1 = sent w" using forward_raw_sent [OF r, of "svc_forwarder st" query w] u by simp
  show ?thesis
  proof (cases u)
    case (Inr resp)
    obtain v w2 where v: "send_framed S resp w1 = (v, w2)" by fastforce
    obtain x st2 w3 where x: "store_response P question resp st w2 = (x, st2, w3)"
      by (metis prod.collapse)
    have "v = Written" "sent w2 = sent w1 @ frame resp" "sent w3 = sent w2"
      using send_framed_sent [OF r, of resp w1] sr [of resp w2] v x by simp_all
    then show ?thesis
      using u Inr v x w1
      by (auto simp: tcp_forward_def try_write_def records_output_drop [OF r] fl split: outcome.split)
  next
    case (Inl e)
    then show ?thesis using u w1
      by (simp add: tcp_forward_def Let_def records_output_drop [OF r] wr fl frame_def)
  qed
qed

section \<open>The service on libraries that keep their laws\<close>

lemma same_settings_refl [simp]: "same_settings st st"
  by (simp add: same_settings_def)

lemma same_settings_trans: "same_settings a b \<Longrightarrow> same_settings b c \<Longrightarrow> same_settings a c"
  by (simp add: same_settings_def)

lemma answered_same: "same_settings st st' \<Longrightarrow> answered P st' = answered P st"
  by (simp add: answered_def same_settings_def fun_eq_iff)

lemma from_upstream_same: "same_settings st st' \<Longrightarrow> from_upstream P st' = from_upstream P st"
  using answered_same [of st st' P] by (simp add: from_upstream_def same_settings_def fun_eq_iff)

lemma forward_raw_answered:
  "forward_raw (pf_net P) (svc_forwarder st) query w = (Inr resp, w') \<Longrightarrow> answered P st query resp"
  unfolding answered_def forward_raw_def
  by (fastforce simp: forward_each_succeeds split: if_splits)

locale service_libs = buf: byte_io "pf_buf P" + resp: response_store "pf_lru P" entries valid
  for P :: "('c, 'w, 's) platform"
    and entries :: "'c \<Rightarrow> (cache_key \<times> cached_response) list"
    and valid :: "'c \<Rightarrow> bool"
begin

abbreviation parse_bytes :: "u8 list \<Rightarrow> (dns_error, dns_packet) outcome" where
  "parse_bytes \<equiv> packet_parse (pf_buf P) (pf_unicode P)"

abbreviation inv :: "'c dns_service_state \<Rightarrow> bool" where
  "inv \<equiv> svc_inv P entries valid"

abbreviation view :: "'c dns_service_state \<Rightarrow> cache_key \<rightharpoonup> cached_response" where
  "view st \<equiv> cache_map entries (svc_cache st)"

text \<open>A cache that only lost entries, or gained one that an upstream answered.\<close>

lemma inv_sub:
  assumes "inv st" "cache_inv entries valid c" "cache_map entries c \<subseteq>\<^sub>m view st"
  shows "inv (st\<lparr>svc_cache := c\<rparr>)"
proof -
  have "from_upstream P (st\<lparr>svc_cache := c\<rparr>) = from_upstream P st"
    by (intro from_upstream_same) (simp add: same_settings_def)
  moreover have "cache_map entries c k = Some e \<Longrightarrow> view st k = Some e" for k e
    using assms(3) by (metis domI map_le_def)
  ultimately show ?thesis using assms(1,2) unfolding svc_inv_def by simp
qed

lemma inv_add:
  assumes "inv st" "cache_inv entries valid c" "cache_map entries c \<subseteq>\<^sub>m (view st)(k \<mapsto> e)"
    "from_upstream P st k (cr_packet e)"
  shows "inv (st\<lparr>svc_cache := c\<rparr>)"
proof -
  have "from_upstream P st k' (cr_packet e')" if "cache_map entries c k' = Some e'" for k' e'
  proof -
    have "((view st)(k \<mapsto> e)) k' = Some e'"
      using assms(3) that by (metis domI map_le_def)
    then show ?thesis using assms(1,4) unfolding svc_inv_def
      by (cases "k' = k") (simp_all del: split_paired_All)
  qed
  moreover have "from_upstream P (st\<lparr>svc_cache := c\<rparr>) = from_upstream P st"
    by (intro from_upstream_same) (simp add: same_settings_def)
  ultimately show ?thesis using assms(1,2) by (simp add: svc_inv_def)
qed

lemma lookup_cache_facts:
  assumes "inv st" "lookup_cache P question st w = (hit, st', w')"
  shows "inv st'" "same_settings st st'"
    "\<exists>t1 t2. hit = (case view st (cache_key (pf_unicode P) (q_name question) (q_type question)) of
       None \<Rightarrow> None
     | Some e \<Rightarrow> if is_expired t1 e then None
         else Some (served (remaining_ttl_secs t2 e) (cr_packet e)))"
proof -
  let ?get = "\<lambda>t1 t2. cache_get (pf_unicode P) (pf_lru P) t1 t2 (q_name question)
    (q_type question) (svc_cache st)"
  obtain t1 t2 where eq: "hit = fst (?get t1 t2)" "st' = st\<lparr>svc_cache := snd (?get t1 t2)\<rparr>"
    using lookup_cache_get [of P question st w] assms(2) by (metis fst_conv snd_conv)
  have c: "cache_inv entries valid (svc_cache st)" using assms(1) by (simp add: svc_inv_def)
  show "same_settings st st'" by (simp add: eq same_settings_def)
  show "inv st'" unfolding eq
    by (rule inv_sub [OF assms(1) resp.cache_get_inv(1) [OF c]])
      (auto simp: resp.cache_get_map [OF c] map_le_def split: option.split)
  show "\<exists>t1 t2. hit = (case view st (cache_key (pf_unicode P) (q_name question) (q_type question)) of
       None \<Rightarrow> None
     | Some e \<Rightarrow> if is_expired t1 e then None
         else Some (served (remaining_ttl_secs t2 e) (cr_packet e)))"
    unfolding eq resp.cache_get_result [OF c] by blast
qed

lemma lookup_cache_hit:
  assumes "inv st" "lookup_cache P question st w = (hit, st', w')"
    and "net_now (pf_net P) w = (t, w0)"
    and "view st (cache_key (pf_unicode P) (q_name question) (q_type question)) = Some e"
    and "\<not> is_expired t e"
  shows "\<exists>t2. hit = Some (served (remaining_ttl_secs t2 e) (cr_packet e))"
proof -
  have c: "cache_inv entries valid (svc_cache st)" using assms(1) by (simp add: svc_inv_def)
  have "fst (lru_get (pf_lru P) (cache_key (pf_unicode P) (q_name question) (q_type question))
      (store (svc_cache st))) = Some e"
    using assms(4) c resp.get(1) by (simp add: cache_inv_def cache_map_def)
  then obtain t2 where "hit = fst (cache_get (pf_unicode P) (pf_lru P) t t2
      (q_name question) (q_type question) (svc_cache st))"
    using assms(2,3,5) by (simp add: lookup_cache_def Let_def split: prod.splits) (metis fst_conv)
  then show ?thesis using assms(4,5) by (auto simp: resp.cache_get_result [OF c])
qed

text \<open>Storing a response panics only where parsing it does.\<close>

lemma store_response_facts:
  assumes "inv st" "asks P query packet question"
    "\<not> is_blocked (pf_unicode P) (svc_filter st) (q_name question)"
    "answered P st query resp"
    "store_response P question resp st w = (r, st', w')"
  shows "inv st'" "same_settings st st'"
    "r = (if parse_bytes resp = Panic then Panic else Ok ())"
proof -
  have c: "cache_inv entries valid (svc_cache st)" using assms(1) by (simp add: svc_inv_def)
  have "inv st' \<and> same_settings st st' \<and> r = (if parse_bytes resp = Panic then Panic else Ok ())"
  proof (cases "parse_bytes resp")
    case (Ok p)
    obtain t where t: "net_now (pf_net P) w = (t, w')"
      using assms(5) Ok by (auto simp: store_response_def split: prod.splits outcome.splits)
    let ?ins = "cache_insert (pf_unicode P) (pf_lru P) t (q_name question) (q_type question) p
      (svc_cache st)"
    let ?e = "new_entry (min_ttl (svc_cache st)) (max_ttl (svc_cache st)) t (q_type question) p"
    obtain c' where ins: "?ins = outcome.Ok c'" by (simp add: resp.cache_insert_eq [OF c])
    then have eq: "st' = st\<lparr>svc_cache := c'\<rparr>" "r = outcome.Ok ()"
      using assms(5) Ok t by (auto simp: store_response_def)
    have "from_upstream P st (cache_key (pf_unicode P) (q_name question) (q_type question)) p"
      unfolding from_upstream_def using assms(2-4) Ok by blast
    then have "inv st'" unfolding eq
      by (intro inv_add [OF assms(1) resp.cache_insert_inv(1) [OF c ins] resp.cache_insert_map(2) [OF c ins]])
        (simp add: new_entry_def)
    then show ?thesis using Ok by (simp add: eq same_settings_def)
  qed (use assms(1,5) in \<open>auto simp: store_response_def buf.packet_parse_not_Hang\<close>)
  then show "inv st'" "same_settings st st'"
    "r = (if parse_bytes resp = Panic then Panic else Ok ())" by blast+
qed


lemma resolve_front_facts:
  assumes "inv st" "resolve_front P query st w = (r, st', w')"
  shows "inv st'" "same_settings st st'"
    "r = Panic \<longleftrightarrow> parse_bytes query = Panic" "r \<noteq> Hang" "r \<noteq> Err e"
    "r = Ok (NeedUpstream packet question) \<Longrightarrow> asks P query packet question
       \<and> \<not> is_blocked (pf_unicode P) (svc_filter st) (q_name question)"
  using assms lookup_cache_facts(1,2) [OF assms(1)]
  by (auto simp: resolve_front_def is_blocked_def asks_def buf.packet_parse_not_Hang
      split: outcome.splits list.splits filter_result.splits prod.splits option.splits)

text \<open>A whole query: the invariant, and what can go wrong.\<close>

lemma resolve_dns_query_facts:
  assumes "inv st" "resolve_dns_query P query st w = (r, st', w')"
  shows "inv st'" "same_settings st st'"
    "r = Panic \<or> (\<exists>reply. r = Ok reply)"
proof -
  obtain f st1 w1 where f: "resolve_front P query st w = (f, st1, w1)" by (metis prod.collapse)
  note ff = resolve_front_facts [OF assms(1) f]
  have "inv st' \<and> same_settings st st' \<and> (r = Panic \<or> (\<exists>reply. r = Ok reply))"
  proof (cases f)
    case (Ok x)
    show ?thesis
    proof (cases x)
      case (NeedUpstream packet question)
      obtain u w2 where u: "forward_raw (pf_net P) (svc_forwarder st1) query w1 = (u, w2)"
        by fastforce
      show ?thesis
      proof (cases u)
        case (Inr resp)
        obtain s st2 w3 where s: "store_response P question resp st1 w2 = (s, st2, w3)"
          by (metis prod.collapse)
        have ask: "asks P query packet question"
          "\<not> is_blocked (pf_unicode P) (svc_filter st1) (q_name question)"
          using ff(6) Ok NeedUpstream ff(2) by (auto simp: same_settings_def)
        note sf = store_response_facts [OF ff(1) ask forward_raw_answered [OF u [unfolded Inr]] s]
        show ?thesis
          using assms(2) f Ok NeedUpstream u Inr s sf ff(1,2) same_settings_trans
          by (auto simp: resolve_dns_query_def split: if_splits)
      qed (use assms(2) f Ok NeedUpstream u ff(1,2) in \<open>auto simp: resolve_dns_query_def\<close>)
    qed (use assms(2) f Ok ff(1,2) in \<open>auto simp: resolve_dns_query_def\<close>)
  qed (use assms(2) f ff in \<open>auto simp: resolve_dns_query_def\<close>)
  then show "inv st'" "same_settings st st'" "r = Panic \<or> (\<exists>reply. r = Ok reply)" by blast+
qed

lemma tcp_forward_facts:
  assumes "inv st" "asks P query packet question"
    "\<not> is_blocked (pf_unicode P) (svc_filter st) (q_name question)"
    "tcp_forward P S query packet question st w = (r, st', w')"
  shows "inv st' \<and> same_settings st st' \<and> (responsive S \<longrightarrow> r \<noteq> Hang) \<and> r \<noteq> Ok Closed"
proof -
  note live = responsive_writes [of S]
  obtain u w1 where u: "forward_raw (pf_net P) (svc_forwarder st) query w = (u, w1)" by fastforce
  show ?thesis
  proof (cases u)
    case (Inr resp)
    obtain v w2 where v: "send_framed S resp w1 = (v, w2)" by fastforce
    obtain x st2 w3 where x: "store_response P question resp st w2 = (x, st2, w3)"
      by (metis prod.collapse)
    note sf = store_response_facts [OF assms(1-3) forward_raw_answered [OF u [unfolded Inr]] x]
    show ?thesis
      using assms(1,4) u Inr v x sf live
      by (auto simp: tcp_forward_def elim!: try_writeE drop_writeE split: if_splits) (metis fst_conv)+
  qed (use assms(1,4) u live in \<open>auto simp: tcp_forward_def Let_def elim!: drop_writeE; metis fst_conv\<close>)
qed

lemma tcp_answer_facts:
  assumes "inv st" "tcp_answer P S query st w = (r, st', w')"
  shows "inv st' \<and> same_settings st st' \<and> (responsive S \<longrightarrow> r \<noteq> Hang) \<and> r \<noteq> Ok Closed"
proof -
  note live = responsive_writes [of S]
  obtain f st1 w1 where f: "resolve_front P query st w = (f, st1, w1)" by (metis prod.collapse)
  note ff = resolve_front_facts [OF assms(1) f]
  show ?thesis
  proof (cases "\<exists>packet question. f = Ok (NeedUpstream packet question)")
    case True
    then obtain packet question where n: "f = Ok (NeedUpstream packet question)" by blast
    have "asks P query packet question" "\<not> is_blocked (pf_unicode P) (svc_filter st1) (q_name question)"
      using ff(2) ff(6) [OF n] by (simp_all add: same_settings_def)
    from tcp_forward_facts [OF ff(1) this, of S w1 r st' w'] assms(2) f n ff(2)
    show ?thesis by (auto simp: tcp_answer_front intro: same_settings_trans)
  next
    case False
    then show ?thesis using assms(2) f ff(1,2,4) live
      by (auto simp: tcp_answer_front elim!: try_writeE
          split: outcome.splits front_result.splits option.splits; metis fst_conv)
  qed
qed

lemma tcp_turn_facts:
  assumes "inv st" "tcp_turn P S st w = (r, st', w')"
  shows "inv st'" "same_settings st st'" "responsive S \<Longrightarrow> r \<noteq> Hang"
  using assms(1,2) tcp_answer_facts [OF assms(1)] read_message_outcome [of S w]
  by (auto simp: tcp_turn_def split: prod.splits outcome.splits option.splits)

lemma serve_tcp_dns_facts:
  assumes "serve_tcp_dns P S st w = Some (r, st', w')" "inv st"
  shows "inv st' \<and> same_settings st st' \<and> (responsive S \<longrightarrow> r \<noteq> Hang)"
proof -
  let ?good = "\<lambda>(((P', S'), st0), w0) x. P' = P \<longrightarrow> inv st0 \<longrightarrow>
    (case x of (r, st', w') \<Rightarrow> inv st' \<and> same_settings st0 st' \<and> (responsive S' \<longrightarrow> r \<noteq> Hang))"
  have "?good (((P, S), st), w) (r, st', w')"
  proof (rule serve_tcp_dns.raw_induct [where Pa = ?good, OF _ assms(1)])
    fix serve P' S' st0 w0 x
    assume IH: "\<And>S st w b y. serve S st w b = Some y \<Longrightarrow> ?good (((S, st), w), b) y"
      and eq: "(case tcp_turn P' S' st0 w0 of (Ok Again, st, w) \<Rightarrow> serve P' S' st w
        | (Ok Closed, st, w) \<Rightarrow> Some (Ok (), st, w) | (Err e, st, w) \<Rightarrow> Some (Err e, st, w)
        | (Panic, st, w) \<Rightarrow> Some (Panic, st, w) | (Hang, st, w) \<Rightarrow> Some (Hang, st, w)) = Some x"
    obtain t st1 w1 where t: "tcp_turn P' S' st0 w0 = (t, st1, w1)" by (metis prod.collapse)
    have "case x of (r, st', w') \<Rightarrow> inv st' \<and> same_settings st0 st' \<and> (responsive S' \<longrightarrow> r \<noteq> Hang)"
      if p: "P' = P" and i: "inv st0"
    proof -
      note tf = tcp_turn_facts [OF i t [unfolded p]]
      show ?thesis
      proof (cases "t = Ok Again")
        case True
        then have "serve P' S' st1 w1 = Some x" using eq t by simp
        from IH [OF this] p tf show ?thesis by (auto intro: same_settings_trans)
      qed (use eq t tf in \<open>auto split: outcome.splits turn.splits\<close>)
    qed
    then show "?good (((P', S'), st0), w0) x" by simp
  qed
  then show ?thesis using assms(2) by simp
qed

text \<open>A service that has just started.\<close>

lemma effective_config_ok: "config_ok U (effective_config U g T rd path)"
proof (cases "load_from_file U g T rd path")
  case (Inl e)
  have "ascii (lit ''nxdomain'')" by (simp add: ascii_def lit_def)
  then have "to_lowercase U (lit ''nxdomain'') = lit ''nxdomain''"
    by (simp add: to_lowercase_ascii ascii_lower_def lit_def)
  then show ?thesis
    by (simp add: effective_config_def Inl config_ok_def server_config_default_def)
next
  case (Inr c)
  then show ?thesis
    using load_from_file_finish [OF Inr] finish_config_ok(2) by (auto simp: effective_config_def)
qed

lemma start_service_inv: "inv (start_service P g T rd path)"
proof -
  let ?c = "effective_config (pf_unicode P) g T rd path"
  have ok: "config_ok (pf_unicode P) ?c" by (rule effective_config_ok)
  then have "unat (min_ttl_secs ?c) \<le> unat (max_ttl_secs ?c)"
    by (simp add: config_ok_def word_le_nat_alt)
  from resp.cache_new_inv [OF this, of "unat (cache_capacity ?c)"] load_filters_inv
  show ?thesis by (simp add: svc_inv_def start_service_def Let_def)
qed

end

text \<open>The service on the list store and the byte-list buffer.\<close>

definition list_platform ::
  "unicode \<Rightarrow> ('w, 's) net_api
     \<Rightarrow> (nat \<times> (cache_key \<times> cached_response) list, 'w, 's) platform" where
  "list_platform U N =
     \<lparr>pf_buf = slice_api, pf_unicode = U, pf_lru = list_lru, pf_net = N\<rparr>"

interpretation list_service: service_libs "list_platform U N" snd list_lru_valid
  for U :: unicode and N :: "('w, 's) net_api"
  by (intro service_libs.intro)
    (simp_all add: list_platform_def slice.byte_io_axioms list_cache.response_store_axioms)

end
