(* ===== verification/Tasks.thy ===== *)
theory Tasks
  imports Service
begin

text \<open>
  The tasks of \<open>run_server\<close>: one for each datagram and one for each connection, with their
  steps. A task gives way only where its code waits, so a step is the code between two waits
  that matter to others: the lock of the cache, the exchange with an upstream, and the client of
  a connection. A step that waits for its client can be taken only in a world in which the client
  lets it end. A connection that found its answer in the cache keeps the lock while it writes to
  its client.
\<close>

section \<open>The task of a datagram\<close>

text \<open>\<open>Forwarding\<close> carries the upstreams still to be asked, \<open>Storing\<close> the response to be cached.\<close>

datatype task =
    Arrived "u8 list"
  | Forwarding "u8 list" dns_question "upstream_entry list"
  | Storing "u8 list" dns_question "u8 list"
  | Finished "u8 list" "u8 list option"
  | Crashed "u8 list"

text \<open>What a task becomes by its next step, with the new state and world.\<close>

definition task_turn ::
  "('c, 'w, 's) platform \<Rightarrow> task \<Rightarrow> 'c dns_service_state \<Rightarrow> 'w
     \<Rightarrow> (task \<times> 'c dns_service_state \<times> 'w) option" where
  "task_turn P t st w =
     (case t of
        Arrived query \<Rightarrow>
          (case resolve_front P query st w of
             (Ok (Reply r), st, w) \<Rightarrow> Some (Finished query r, st, w)
           | (Ok (CacheHit r), st, w) \<Rightarrow> Some (Finished query (Some r), st, w)
           | (Ok (NeedUpstream packet question), st, w) \<Rightarrow>
               Some (Forwarding query question (upstreams (svc_forwarder st)), st, w)
           | (Err e, st, w) \<Rightarrow> None
           | (Panic, st, w) \<Rightarrow> Some (Crashed query, st, w)
           | (Hang, st, w) \<Rightarrow> None)
      | Forwarding query question [] \<Rightarrow> Some (Finished query None, st, w)
      | Forwarding query question (u # us) \<Rightarrow>
          (case forward_one (pf_net P) (svc_forwarder st) query u w of
             (Inr resp, w) \<Rightarrow> Some (Storing query question resp, st, w)
           | (Inl e, w) \<Rightarrow> Some (Forwarding query question us, st, w))
      | Storing query question resp \<Rightarrow>
          (case store_response P question resp st w of
             (Ok _, st, w) \<Rightarrow> Some (Finished query (Some resp), st, w)
           | (Err e, st, w) \<Rightarrow> None
           | (Panic, st, w) \<Rightarrow> Some (Crashed query, st, w)
           | (Hang, st, w) \<Rightarrow> None)
      | Finished query r \<Rightarrow> None
      | Crashed query \<Rightarrow> None)"

section \<open>The task of a connection\<close>

text \<open>
  The places of \<open>serve_tcp_dns\<close> between two waits; a query is carried along to say which
  one a reply belongs to.
\<close>

datatype conn =
    Reading
  | Deciding "u8 list"
  | Sending "u8 list" "u8 list"
  | SendingHit "u8 list" "u8 list"
  | Asking "u8 list" dns_packet dns_question "upstream_entry list"
  | SendingAnswer "u8 list" dns_question "u8 list"
  | Keeping "u8 list" dns_question "u8 list"
  | SendingFailure "u8 list" "u8 list"
  | Flushing
  | Ended "string + unit"
  | ConnCrashed "u8 list"

text \<open>A reply whose writing may fail: the connection then ends. A pending write is no step.\<close>

definition send_then ::
  "'w stream_api \<Rightarrow> u8 list \<Rightarrow> conn \<Rightarrow> 'c dns_service_state \<Rightarrow> 'w
     \<Rightarrow> (conn \<times> 'c dns_service_state \<times> 'w) option" where
  "send_then S r onward st w =
     (case send_framed S r w of
        (Written, w) \<Rightarrow> Some (onward, st, w)
      | (WriteFailed e, w) \<Rightarrow> Some (Ended (Inl e), st, w)
      | (WritePending, w) \<Rightarrow> None)"

text \<open>A write whose result is dropped.\<close>

definition write_then ::
  "write_result \<times> 'w \<Rightarrow> ('w \<Rightarrow> (conn \<times> 'c dns_service_state \<times> 'w) option)
     \<Rightarrow> (conn \<times> 'c dns_service_state \<times> 'w) option" where
  "write_then r onward = (case r of (WritePending, w) \<Rightarrow> None | (_, w) \<Rightarrow> onward w)"

definition conn_turn ::
  "('c, 'w, 's) platform \<Rightarrow> 'w stream_api \<Rightarrow> conn \<Rightarrow> 'c dns_service_state \<Rightarrow> 'w
     \<Rightarrow> (conn \<times> 'c dns_service_state \<times> 'w) option" where
  "conn_turn P S c st w =
     (case c of
        Reading \<Rightarrow>
          (case read_message S w of
             (Ok None, w) \<Rightarrow> Some (Ended (Inr ()), st, w)
           | (Ok (Some query), w) \<Rightarrow> Some (Deciding query, st, w)
           | (Err e, w) \<Rightarrow> Some (Ended (Inl e), st, w)
           | _ \<Rightarrow> None)
      | Deciding query \<Rightarrow>
          (case resolve_front P query st w of
             (Ok (Reply None), st, w) \<Rightarrow> Some (Reading, st, w)
           | (Ok (Reply (Some r)), st, w) \<Rightarrow> Some (Sending query r, st, w)
           | (Ok (CacheHit r), st, w) \<Rightarrow> Some (SendingHit query r, st, w)
           | (Ok (NeedUpstream packet question), st, w) \<Rightarrow>
               Some (Asking query packet question (upstreams (svc_forwarder st)), st, w)
           | (Err e, st, w) \<Rightarrow> None
           | (Panic, st, w) \<Rightarrow> Some (ConnCrashed query, st, w)
           | (Hang, st, w) \<Rightarrow> None)
      | Sending query r \<Rightarrow> send_then S r Reading st w
      | SendingHit query r \<Rightarrow> send_then S r Reading st w
      | Asking query packet question [] \<Rightarrow>
          Some (SendingFailure query (servfail_reply (pf_buf P) packet), st, w)
      | Asking query packet question (u # us) \<Rightarrow>
          (case forward_one (pf_net P) (svc_forwarder st) query u w of
             (Inr resp, w) \<Rightarrow> Some (SendingAnswer query question resp, st, w)
           | (Inl e, w) \<Rightarrow> Some (Asking query packet question us, st, w))
      | SendingAnswer query question resp \<Rightarrow> send_then S resp (Keeping query question resp) st w
      | Keeping query question resp \<Rightarrow>
          (case store_response P question resp st w of
             (Ok _, st, w) \<Rightarrow> Some (Flushing, st, w)
           | (Err e, st, w) \<Rightarrow> None
           | (Panic, st, w) \<Rightarrow> Some (ConnCrashed query, st, w)
           | (Hang, st, w) \<Rightarrow> None)
      | SendingFailure query r \<Rightarrow>
          write_then (strm_write_all S (bytes16 (word_of_nat (length r))) w) (\<lambda>w.
          write_then (strm_write_all S r w) (\<lambda>w. Some (Flushing, st, w)))
      | Flushing \<Rightarrow> write_then (strm_flush S w) (\<lambda>w. Some (Reading, st, w))
      | Ended r \<Rightarrow> None
      | ConnCrashed query \<Rightarrow> None)"

section \<open>The lock of the cache\<close>

text \<open>
  Which steps lock the cache: the lookup, for a query that parses and is not blocked, and the
  insertion of a response that parses. Only \<open>SendingHit\<close> holds the lock across a wait.
\<close>

definition looks_up :: "('c, 'w, 's) platform \<Rightarrow> 'c dns_service_state \<Rightarrow> u8 list \<Rightarrow> bool" where
  "looks_up P st query =
     (case packet_parse (pf_buf P) (pf_unicode P) query of
        Ok packet \<Rightarrow>
          (case questions packet of
             [] \<Rightarrow> False
           | question # _ \<Rightarrow> \<not> is_blocked (pf_unicode P) (svc_filter st) (q_name question))
      | _ \<Rightarrow> False)"

definition inserts :: "('c, 'w, 's) platform \<Rightarrow> u8 list \<Rightarrow> bool" where
  "inserts P resp = (case packet_parse (pf_buf P) (pf_unicode P) resp of Ok p \<Rightarrow> True | _ \<Rightarrow> False)"

fun task_locks :: "('c, 'w, 's) platform \<Rightarrow> 'c dns_service_state \<Rightarrow> task \<Rightarrow> bool" where
  "task_locks P st (Arrived query) = looks_up P st query"
| "task_locks P st (Storing query question resp) = inserts P resp"
| "task_locks P st _ = False"

fun conn_locks :: "('c, 'w, 's) platform \<Rightarrow> 'c dns_service_state \<Rightarrow> conn \<Rightarrow> bool" where
  "conn_locks P st (Deciding query) = looks_up P st query"
| "conn_locks P st (Keeping query question resp) = inserts P resp"
| "conn_locks P st _ = False"

fun conn_holds :: "conn \<Rightarrow> bool" where
  "conn_holds (SendingHit query r) = True"
| "conn_holds _ = False"

section \<open>Specification\<close>

text \<open>
  A reply fits its query: to a blocked name the local reply; otherwise what an upstream
  answered to this very query, or a cached upstream answer to the same name and type with the
  lifetimes of its answers counted down.
\<close>

definition reply_fits ::
  "('c, 'w, 's) platform \<Rightarrow> 'c dns_service_state \<Rightarrow> u8 list \<Rightarrow> u8 list \<Rightarrow> bool" where
  "reply_fits P st query r \<longleftrightarrow>
     (\<exists>packet question. asks P query packet question
        \<and> (if is_blocked (pf_unicode P) (svc_filter st) (q_name question)
           then r = blocked_reply P st packet
           else answered P st query r
             \<or> (\<exists>p ttl. r = to_bytes (pf_buf P) (served ttl p)
                  \<and> from_upstream P st
                      (cache_key (pf_unicode P) (q_name question) (q_type question)) p)))"

text \<open>A query or an upstream answer to it whose parsing panics.\<close>

definition unparsable ::
  "('c, 'w, 's) platform \<Rightarrow> 'c dns_service_state \<Rightarrow> u8 list \<Rightarrow> bool" where
  "unparsable P st query \<longleftrightarrow>
     packet_parse (pf_buf P) (pf_unicode P) query = Panic
     \<or> (\<exists>resp. answered P st query resp \<and> packet_parse (pf_buf P) (pf_unicode P) resp = Panic)"

definition permitted ::
  "('c, 'w, 's) platform \<Rightarrow> 'c dns_service_state \<Rightarrow> u8 list \<Rightarrow> dns_packet \<Rightarrow> dns_question \<Rightarrow> bool" where
  "permitted P st query packet question \<longleftrightarrow> asks P query packet question
     \<and> \<not> is_blocked (pf_unicode P) (svc_filter st) (q_name question)"

fun task_ok :: "('c, 'w, 's) platform \<Rightarrow> 'c dns_service_state \<Rightarrow> task \<Rightarrow> bool" where
  "task_ok P st (Arrived query) = True"
| "task_ok P st (Forwarding query question us) =
     ((\<exists>packet. permitted P st query packet question) \<and> set us \<subseteq> set (upstreams (svc_forwarder st)))"
| "task_ok P st (Storing query question resp) =
     ((\<exists>packet. permitted P st query packet question) \<and> answered P st query resp)"
| "task_ok P st (Finished query None) = True"
| "task_ok P st (Finished query (Some r)) = reply_fits P st query r"
| "task_ok P st (Crashed query) = unparsable P st query"

fun conn_ok :: "('c, 'w, 's) platform \<Rightarrow> 'c dns_service_state \<Rightarrow> conn \<Rightarrow> bool" where
  "conn_ok P st (Sending query r) = reply_fits P st query r"
| "conn_ok P st (SendingHit query r) = reply_fits P st query r"
| "conn_ok P st (Asking query packet question us) =
     (permitted P st query packet question \<and> set us \<subseteq> set (upstreams (svc_forwarder st)))"
| "conn_ok P st (SendingAnswer query question resp) =
     ((\<exists>packet. permitted P st query packet question) \<and> answered P st query resp)"
| "conn_ok P st (Keeping query question resp) =
     ((\<exists>packet. permitted P st query packet question) \<and> answered P st query resp)"
| "conn_ok P st (SendingFailure query r) =
     (\<exists>packet question. permitted P st query packet question \<and> r = servfail_reply (pf_buf P) packet)"
| "conn_ok P st (ConnCrashed query) = unparsable P st query"
| "conn_ok P st _ = True"

text \<open>How many steps a datagram's task still has before it, with \<open>n\<close> upstreams.\<close>

fun steps_left :: "nat \<Rightarrow> task \<Rightarrow> nat" where
  "steps_left n (Arrived q) = n + 3"
| "steps_left n (Forwarding q x us) = length us + 2"
| "steps_left n (Storing q x r) = 1"
| "steps_left n (Finished q r) = 0"
| "steps_left n (Crashed q) = 0"

lemma steps_left_zero: "steps_left n t = 0 \<longleftrightarrow> (\<exists>q r. t = Finished q r) \<or> (\<exists>q. t = Crashed q)"
  by (cases t) auto

text \<open>In this world the client keeps its connection waiting: it sends no whole message, or does not
  take what it is sent.\<close>

fun client_stalls :: "'w stream_api \<Rightarrow> conn \<Rightarrow> 'w \<Rightarrow> bool" where
  "client_stalls S Reading w = (fst (read_message S w) = Hang)"
| "client_stalls S (Sending query r) w = (fst (send_framed S r w) = WritePending)"
| "client_stalls S (SendingHit query r) w = (fst (send_framed S r w) = WritePending)"
| "client_stalls S (SendingAnswer query question r) w = (fst (send_framed S r w) = WritePending)"
| "client_stalls S (SendingFailure query r) w =
     (let (x, w1) = strm_write_all S (bytes16 (word_of_nat (length r))) w
      in x = WritePending \<or> fst (strm_write_all S r w1) = WritePending)"
| "client_stalls S Flushing w = (fst (strm_flush S w) = WritePending)"
| "client_stalls S _ w = False"

fun conn_done :: "conn \<Rightarrow> bool" where
  "conn_done (Ended r) = True"
| "conn_done (ConnCrashed q) = True"
| "conn_done _ = False"

section \<open>Lemmas\<close>

lemma spec_same:
  assumes "same_settings st st'"
  shows "reply_fits P st' = reply_fits P st" "unparsable P st' = unparsable P st"
    "permitted P st' = permitted P st" "answered P st' = answered P st"
proof -
  have "blocked_reply P st' = blocked_reply P st"
    using assms by (simp add: same_settings_def blocked_reply_def fun_eq_iff)
  then show "reply_fits P st' = reply_fits P st" "unparsable P st' = unparsable P st"
    "permitted P st' = permitted P st" "answered P st' = answered P st"
    using assms answered_same [OF assms, of P] from_upstream_same [OF assms, of P]
    by (simp_all only: reply_fits_def [abs_def] unparsable_def [abs_def] permitted_def [abs_def] same_settings_def)
qed

lemma task_ok_same: "same_settings st st' \<Longrightarrow> task_ok P st' t = task_ok P st t"
  using spec_same [of st st' P]
  by (cases "(P, st', t)" rule: task_ok.cases) (simp_all add: same_settings_def)

lemma conn_ok_same: "same_settings st st' \<Longrightarrow> conn_ok P st' c = conn_ok P st c"
  using spec_same [of st st' P]
  by (cases "(P, st', c)" rule: conn_ok.cases) (simp_all add: same_settings_def)

lemma answer_fits: "permitted P st query packet question \<Longrightarrow> answered P st query r \<Longrightarrow> reply_fits P st query r"
  by (auto simp: reply_fits_def permitted_def)

lemma one_answered:
  "u \<in> set (upstreams (svc_forwarder st)) \<Longrightarrow>
    forward_one (pf_net P) (svc_forwarder st) query u w = (Inr resp, w') \<Longrightarrow> answered P st query resp"
  unfolding answered_def by blast

text \<open>A connection gets the lock only by a step that locks the cache.\<close>

lemma conn_turn_holds:
  assumes "conn_turn P S c st w = Some (c', st', w')" "conn_holds c'"
  shows "conn_locks P st c"
  using assms
  by (auto simp: conn_turn_def send_then_def write_then_def resolve_front_def looks_up_def is_blocked_def
      split: conn.splits outcome.splits front_result.splits option.splits prod.splits sum.splits
        list.splits filter_result.splits write_result.splits)

lemma holds_not_locks: "conn_holds c \<Longrightarrow> \<not> conn_locks P st c"
  by (cases c) auto

lemma holds_released: "conn_turn P S c st w = Some (c', st', w') \<Longrightarrow> conn_holds c \<Longrightarrow> \<not> conn_holds c'"
  using conn_turn_holds holds_not_locks by metis

text \<open>A step that does not lock the cache leaves the state as it is.\<close>

lemma front_unlocked: "\<not> looks_up P st query \<Longrightarrow> fst (snd (resolve_front P query st w)) = st"
  by (auto simp: resolve_front_def looks_up_def is_blocked_def
      split: outcome.split list.split filter_result.split)

lemma store_unlocked: "\<not> inserts P resp \<Longrightarrow> fst (snd (store_response P question resp st w)) = st"
  by (auto simp: store_response_def inserts_def split: outcome.splits)

lemma task_turn_unlocked:
  assumes "task_turn P t st w = Some (t', st', w')" "\<not> task_locks P st t"
  shows "st' = st"
proof (cases t)
  case (Arrived query)
  then show ?thesis using assms front_unlocked [of P st query w]
    by (auto simp: task_turn_def split: outcome.splits front_result.splits prod.splits)
next
  case (Storing query question resp)
  then show ?thesis using assms store_unlocked [of P resp question st w]
    by (auto simp: task_turn_def split: outcome.splits prod.splits)
qed (use assms in \<open>auto simp: task_turn_def split: list.splits prod.splits sum.splits\<close>)

lemma conn_turn_unlocked:
  assumes "conn_turn P S c st w = Some (c', st', w')" "\<not> conn_locks P st c"
  shows "st' = st"
proof (cases c)
  case (Deciding query)
  then show ?thesis using assms front_unlocked [of P st query w]
    by (auto simp: conn_turn_def split: outcome.splits front_result.splits prod.splits option.splits)
next
  case (Keeping query question resp)
  then show ?thesis using assms store_unlocked [of P resp question st w]
    by (auto simp: conn_turn_def split: outcome.splits prod.splits)
qed (use assms in \<open>auto simp: conn_turn_def send_then_def write_then_def
    split: list.splits prod.splits sum.splits option.splits outcome.splits write_result.splits\<close>)

context service_libs
begin

lemma front_reply_fits:
  assumes "inv st" "resolve_front P query st w = (Ok x, st', w')" "x = Reply (Some r) \<or> x = CacheHit r"
  shows "reply_fits P st query r"
proof -
  obtain packet question rest where p: "parse_bytes query = Ok packet"
      "questions packet = question # rest"
    using assms(2,3) by (auto simp: resolve_front_def split: outcome.splits list.splits)
  then have ask: "asks P query packet question" by (simp add: asks_def)
  show ?thesis
  proof (cases "is_blocked (pf_unicode P) (svc_filter st) (q_name question)")
    case True
    then have "r = blocked_reply P st packet" using assms(2,3) p
      by (auto simp: resolve_front_def is_blocked_def split: filter_result.splits)
    with True ask show ?thesis unfolding reply_fits_def by metis
  next
    case False
    obtain hit st1 w1 where l: "lookup_cache P question st w = (hit, st1, w1)" by (metis prod.collapse)
    then obtain c where c: "hit = Some c" "r = to_bytes (pf_buf P) c"
      using assms(2,3) p False
      by (auto simp: resolve_front_def is_blocked_def split: filter_result.splits option.splits)
    then obtain t2 e where e: "view st (cache_key (pf_unicode P) (q_name question) (q_type question)) = Some e"
        "c = served (remaining_ttl_secs t2 e) (cr_packet e)"
      using lookup_cache_facts(3) [OF assms(1) l] by (auto split: option.splits if_splits)
    then have "from_upstream P st (cache_key (pf_unicode P) (q_name question) (q_type question)) (cr_packet e)"
      using assms(1) by (simp add: svc_inv_def del: split_paired_All)
    with ask False c e(2) show ?thesis unfolding reply_fits_def by metis
  qed
qed

text \<open>The two steps that both kinds of task take on the cache.\<close>

lemma front_step:
  assumes "inv st" "resolve_front P query st w = (f, st', w')"
  shows "inv st'" "same_settings st st'"
    "case f of Ok (Reply (Some r)) \<Rightarrow> reply_fits P st query r
      | Ok (Reply None) \<Rightarrow> True
      | Ok (CacheHit r) \<Rightarrow> reply_fits P st query r
      | Ok (NeedUpstream packet question) \<Rightarrow> permitted P st query packet question
      | Panic \<Rightarrow> unparsable P st query
      | _ \<Rightarrow> False"
  using resolve_front_facts [OF assms] front_reply_fits [OF assms(1), of query w]
  by (auto simp: permitted_def unparsable_def assms(2) split: outcome.splits front_result.splits option.splits)

lemma store_step:
  assumes "inv st" "permitted P st query packet question" "answered P st query resp"
    "store_response P question resp st w = (x, st', w')"
  shows "inv st'" "same_settings st st'"
    "case x of Ok _ \<Rightarrow> True | Panic \<Rightarrow> unparsable P st query | _ \<Rightarrow> False"
  using store_response_facts [OF assms(1) _ _ assms(3,4), of packet] assms(2,3)
  by (auto simp: permitted_def unparsable_def)

text \<open>One step of a task.\<close>

lemma task_turn_facts:
  assumes "inv st" "task_ok P st t" "task_turn P t st w = Some (t', st', w')"
  shows "inv st' \<and> same_settings st st' \<and> task_ok P st t'
    \<and> steps_left (length (upstreams (svc_forwarder st))) t' < steps_left (length (upstreams (svc_forwarder st))) t"
proof (cases t)
  case (Arrived query)
  obtain f st1 w1 where f: "resolve_front P query st w = (f, st1, w1)" by (metis prod.collapse)
  note ff = front_step [OF assms(1) f]
  show ?thesis using assms(3) Arrived f ff
    by (auto simp: task_turn_def same_settings_def split: outcome.splits front_result.splits option.splits)
next
  case (Forwarding query question us)
  show ?thesis
  proof (cases us)
    case (Cons u us')
    then show ?thesis using assms Forwarding one_answered [of u st P query w]
      by (auto simp: task_turn_def split: prod.splits sum.splits)
  qed (use assms Forwarding in \<open>auto simp: task_turn_def\<close>)
next
  case (Storing query question resp)
  then obtain packet where q: "permitted P st query packet question" "answered P st query resp"
    using assms(2) by auto
  obtain x st2 w2 where x: "store_response P question resp st w = (x, st2, w2)"
    by (metis prod.collapse)
  show ?thesis using assms(3) Storing x store_step [OF assms(1) q x] answer_fits [OF q]
    by (auto simp: task_turn_def split: outcome.splits)
qed (use assms(3) in \<open>auto simp: task_turn_def\<close>)

text \<open>A task that has not ended always has a next step.\<close>

lemma task_turn_progress:
  assumes "inv st" "task_ok P st t"
  shows "steps_left n t = 0 \<longleftrightarrow> task_turn P t st w = None"
proof (cases t)
  case (Arrived query)
  obtain f st1 w1 where f: "resolve_front P query st w = (f, st1, w1)" by (metis prod.collapse)
  show ?thesis using resolve_front_facts(4,5) [OF assms(1) f] Arrived f
    by (auto simp: task_turn_def split: outcome.splits front_result.splits)
next
  case (Storing query question resp)
  then obtain packet where q: "permitted P st query packet question" "answered P st query resp"
    using assms(2) by auto
  obtain x st2 w2 where x: "store_response P question resp st w = (x, st2, w2)"
    by (metis prod.collapse)
  show ?thesis using store_step(3) [OF assms(1) q x] Storing x
    by (auto simp: task_turn_def split: outcome.splits)
qed (auto simp: task_turn_def split: prod.split sum.split list.split)

text \<open>One step of a connection.\<close>

lemma conn_turn_facts:
  assumes "inv st" "conn_ok P st c" "conn_turn P S c st w = Some (c', st', w')"
  shows "inv st' \<and> same_settings st st' \<and> conn_ok P st c'"
proof (cases c)
  case (Deciding query)
  obtain f st1 w1 where f: "resolve_front P query st w = (f, st1, w1)" by (metis prod.collapse)
  show ?thesis using assms(3) Deciding f front_step [OF assms(1) f]
    by (auto simp: conn_turn_def same_settings_def split: outcome.splits front_result.splits option.splits)
next
  case (Asking query packet question us)
  show ?thesis
  proof (cases us)
    case (Cons u us')
    then show ?thesis using assms Asking one_answered [of u st P query w]
      by (auto simp: conn_turn_def split: prod.splits sum.splits)
  qed (use assms Asking in \<open>auto simp: conn_turn_def intro!: exI [of _ packet]\<close>)
next
  case (Keeping query question resp)
  then obtain packet where q: "permitted P st query packet question" "answered P st query resp"
    using assms(2) by auto
  obtain x st2 w2 where x: "store_response P question resp st w = (x, st2, w2)"
    by (metis prod.collapse)
  show ?thesis using assms(3) Keeping x store_step [OF assms(1) q x]
    by (auto simp: conn_turn_def split: outcome.splits)
qed (use assms in \<open>auto simp: conn_turn_def send_then_def write_then_def
    split: prod.splits sum.splits option.splits outcome.splits write_result.splits\<close>)

text \<open>A connection that has not ended has a next step, unless its client keeps it waiting.\<close>

lemma conn_turn_progress:
  assumes "inv st" "conn_ok P st c"
  shows "conn_done c \<or> client_stalls S c w \<longleftrightarrow> conn_turn P S c st w = None"
proof (cases c)
  case (Deciding query)
  obtain f st1 w1 where f: "resolve_front P query st w = (f, st1, w1)" by (metis prod.collapse)
  show ?thesis using resolve_front_facts(4,5) [OF assms(1) f] Deciding f
    by (auto simp: conn_turn_def split: outcome.splits front_result.splits option.splits)
next
  case (Keeping query question resp)
  then obtain packet where q: "permitted P st query packet question" "answered P st query resp"
    using assms(2) by auto
  obtain x st2 w2 where x: "store_response P question resp st w = (x, st2, w2)"
    by (metis prod.collapse)
  show ?thesis using store_step(3) [OF assms(1) q x] Keeping x
    by (auto simp: conn_turn_def split: outcome.splits)
next
  case Reading
  then show ?thesis using read_message_outcome(1) [of S w]
    by (auto simp: conn_turn_def split: prod.split outcome.split option.split)
qed (auto simp: conn_turn_def send_then_def write_then_def
    split: prod.split sum.split list.split write_result.split)

end

end
