(* ===== verification/System.thy ===== *)
theory System
  imports Tasks
begin

text \<open>
  The running server: the shared state, the lock of the cache, and the tasks of datagrams and
  connections, in any interleaving. The executor may run any task that waits neither for the lock
  nor for its client; the network may hand in datagrams and connections; and between any two
  steps the world outside may change. Every step is labelled with who takes it, so that a run of
  one task alone (\<open>own_run\<close>) can be told from a run of the system (\<open>sys_run\<close>).
\<close>

section \<open>States and steps\<close>

record ('c, 'w) system =
  sys_state :: "'c dns_service_state"
  sys_world :: 'w
  sys_lock :: "nat option"
  sys_tasks :: "task list"
  sys_conns :: "('w stream_api \<times> conn) list"

text \<open>\<open>sys_lock\<close> is the connection that keeps the lock of the cache while it waits.\<close>

definition lock_after :: "nat \<Rightarrow> conn \<Rightarrow> nat option \<Rightarrow> nat option" where
  "lock_after i c held = (if conn_holds c then Some i else if held = Some i then None else held)"

text \<open>
  One turn of the accept loops. A connection that is accepted gets a task; over TLS the task
  starts with the handshake, and serves the connection if that succeeds.
\<close>

definition accept_tcp ::
  "string + 'w stream_api \<Rightarrow> ('w stream_api \<times> conn) list \<Rightarrow> ('w stream_api \<times> conn) list" where
  "accept_tcp accepted conns =
     (case accepted of Inl e \<Rightarrow> conns | Inr stream \<Rightarrow> conns @ [(stream, Reading)])"

definition accept_tls ::
  "string + (string + 'w stream_api) \<Rightarrow> ('w stream_api \<times> conn) list \<Rightarrow> ('w stream_api \<times> conn) list" where
  "accept_tls accepted conns =
     (case accepted of
        Inl e \<Rightarrow> conns
      | Inr (Inl e) \<Rightarrow> conns
      | Inr (Inr tls_stream) \<Rightarrow> conns @ [(tls_stream, Reading)])"

datatype actor = Network | Outside | Task nat | Conn nat

inductive sys_step ::
  "('c, 'w, 's) platform \<Rightarrow> actor \<Rightarrow> ('c, 'w) system \<Rightarrow> ('c, 'w) system \<Rightarrow> bool" for P where
  receive: "sys_step P Network s (s\<lparr>sys_tasks := sys_tasks s @ [Arrived (take 4096 datagram)]\<rparr>)"
| tcp: "sys_step P Network s (s\<lparr>sys_conns := accept_tcp accepted (sys_conns s)\<rparr>)"
| tls: "sys_step P Network s (s\<lparr>sys_conns := accept_tls handshake (sys_conns s)\<rparr>)"
| elsewhere: "sys_step P Outside s (s\<lparr>sys_world := w\<rparr>)"
| run: "i < length (sys_tasks s) \<Longrightarrow> sys_tasks s ! i = t \<Longrightarrow>
    task_locks P (sys_state s) t \<longrightarrow> sys_lock s = None \<Longrightarrow>
    task_turn P t (sys_state s) (sys_world s) = Some (t', st, w) \<Longrightarrow>
    sys_step P (Task i) s (s\<lparr>sys_state := st, sys_world := w, sys_tasks := (sys_tasks s)[i := t']\<rparr>)"
| serve: "i < length (sys_conns s) \<Longrightarrow> sys_conns s ! i = (S, c) \<Longrightarrow>
    conn_locks P (sys_state s) c \<longrightarrow> sys_lock s = None \<Longrightarrow>
    conn_turn P S c (sys_state s) (sys_world s) = Some (c', st, w) \<Longrightarrow>
    sys_step P (Conn i) s (s\<lparr>sys_state := st, sys_world := w, sys_lock := lock_after i c' (sys_lock s),
      sys_conns := (sys_conns s)[i := (S, c')]\<rparr>)"

inductive_cases task_stepE: "sys_step P (Task i) s s'"
inductive_cases conn_stepE: "sys_step P (Conn i) s s'"

definition sys_run :: "('c, 'w, 's) platform \<Rightarrow> ('c, 'w) system \<Rightarrow> ('c, 'w) system \<Rightarrow> bool" where
  "sys_run P = (\<lambda>s s'. \<exists>a. sys_step P a s s')\<^sup>*\<^sup>*"

lemma sys_run_refl [simp]: "sys_run P s s"
  by (simp add: sys_run_def)

lemma sys_run_trans: "sys_run P s1 s2 \<Longrightarrow> sys_run P s2 s3 \<Longrightarrow> sys_run P s1 s3"
  unfolding sys_run_def by (rule rtranclp_trans)

lemma sys_run_step: "sys_step P a s s' \<Longrightarrow> sys_run P s s'"
  unfolding sys_run_def by (metis (mono_tags, lifting) r_into_rtranclp)

text \<open>A run in which one actor takes every step: nothing else happens, not even outside.\<close>

definition own_run ::
  "('c, 'w, 's) platform \<Rightarrow> actor \<Rightarrow> ('c, 'w) system \<Rightarrow> ('c, 'w) system \<Rightarrow> bool" where
  "own_run P a = (sys_step P a)\<^sup>*\<^sup>*"

lemma own_run_trans: "own_run P a s1 s2 \<Longrightarrow> own_run P a s2 s3 \<Longrightarrow> own_run P a s1 s3"
  unfolding own_run_def by (rule rtranclp_trans)

lemma own_run_step: "sys_step P a s s' \<Longrightarrow> own_run P a s s'"
  unfolding own_run_def by (rule r_into_rtranclp)

lemma own_run_sys: "own_run P a s s' \<Longrightarrow> sys_run P s s'"
  unfolding own_run_def
  by (induction rule: rtranclp_induct) (auto intro: sys_run_trans sys_run_step)

definition booted :: "'c dns_service_state \<Rightarrow> 'w \<Rightarrow> ('c, 'w) system" where
  "booted st w = \<lparr>sys_state = st, sys_world = w, sys_lock = None, sys_tasks = [], sys_conns = []\<rparr>"

text \<open>The states of a server that has just started and then run.\<close>

inductive reachable ::
  "('c, 'w, 's) platform \<Rightarrow> 'c dns_service_state \<Rightarrow> ('c, 'w) system \<Rightarrow> bool" for P st0 where
  boot: "reachable P st0 (booted st0 w)"
| step: "reachable P st0 s \<Longrightarrow> sys_step P a s s' \<Longrightarrow> reachable P st0 s'"

section \<open>The invariant\<close>

text \<open>The lock belongs to the one connection that is writing a cached reply, if there is one.\<close>

definition lock_inv :: "('c, 'w) system \<Rightarrow> bool" where
  "lock_inv s \<longleftrightarrow> (\<forall>i. sys_lock s = Some i \<longleftrightarrow>
     i < length (sys_conns s) \<and> conn_holds (snd (sys_conns s ! i)))"

definition sys_inv ::
  "('c, 'w, 's) platform \<Rightarrow> ('c \<Rightarrow> (cache_key \<times> cached_response) list) \<Rightarrow> ('c \<Rightarrow> bool)
     \<Rightarrow> 'c dns_service_state \<Rightarrow> ('c, 'w) system \<Rightarrow> bool" where
  "sys_inv P entries valid st0 s \<longleftrightarrow> svc_inv P entries valid (sys_state s)
     \<and> same_settings st0 (sys_state s) \<and> list_all (task_ok P st0) (sys_tasks s)
     \<and> list_all (\<lambda>(S, c). conn_ok P st0 c) (sys_conns s) \<and> lock_inv s"

lemma list_all_update: "list_all Q xs \<Longrightarrow> Q x \<Longrightarrow> list_all Q (xs[i := x])"
  by (auto simp: list_all_iff dest!: subsetD [OF set_update_subset_insert])

lemma lock_inv_serve:
  assumes "lock_inv s" "i < length (sys_conns s)" "sys_conns s ! i = (S, c)"
    and "conn_holds c' \<Longrightarrow> sys_lock s = None"
  shows "lock_inv (s\<lparr>sys_state := st, sys_world := w, sys_lock := lock_after i c' (sys_lock s),
    sys_conns := (sys_conns s)[i := (S, c')]\<rparr>)"
  unfolding lock_inv_def
proof
  fix j
  have held: "sys_lock s = Some j \<longleftrightarrow> j < length (sys_conns s) \<and> conn_holds (snd (sys_conns s ! j))"
    using assms(1) by (simp add: lock_inv_def)
  show "sys_lock (s\<lparr>sys_state := st, sys_world := w, sys_lock := lock_after i c' (sys_lock s),
      sys_conns := (sys_conns s)[i := (S, c')]\<rparr>) = Some j \<longleftrightarrow>
    j < length (sys_conns (s\<lparr>sys_state := st, sys_world := w, sys_lock := lock_after i c' (sys_lock s),
      sys_conns := (sys_conns s)[i := (S, c')]\<rparr>))
    \<and> conn_holds (snd (sys_conns (s\<lparr>sys_state := st, sys_world := w,
        sys_lock := lock_after i c' (sys_lock s), sys_conns := (sys_conns s)[i := (S, c')]\<rparr>) ! j))"
    using held assms(2,4) by (cases "j = i") (auto simp: lock_after_def)
qed

lemma lock_inv_more:
  assumes "lock_inv s"
  shows "lock_inv (s\<lparr>sys_conns := accept_tcp x (sys_conns s)\<rparr>)"
    "lock_inv (s\<lparr>sys_conns := accept_tls y (sys_conns s)\<rparr>)"
  using assms by (auto simp: lock_inv_def accept_tcp_def accept_tls_def nth_append less_Suc_eq split: sum.split)

lemma accepted_ok:
  assumes "list_all (\<lambda>(S, c). conn_ok P st c) conns"
  shows "list_all (\<lambda>(S, c). conn_ok P st c) (accept_tcp x conns)"
    "list_all (\<lambda>(S, c). conn_ok P st c) (accept_tls y conns)"
  using assms by (auto simp: accept_tcp_def accept_tls_def split: sum.split)

lemma lock_inv_other [simp]:
  "lock_inv (s\<lparr>sys_tasks := ts\<rparr>) = lock_inv s" "lock_inv (s\<lparr>sys_world := w\<rparr>) = lock_inv s"
  "lock_inv (s\<lparr>sys_state := st\<rparr>) = lock_inv s"
  by (simp_all add: lock_inv_def)

lemma sys_step_lock:
  assumes "lock_inv s" "sys_step P a s s'"
  shows "lock_inv s'"
  using assms(2)
proof (cases rule: sys_step.cases)
  case (serve i S c c' st w)
  have "conn_holds c' \<Longrightarrow> sys_lock s = None"
    using conn_turn_holds [OF serve(6)] serve(5) by simp
  from lock_inv_serve [OF assms(1) serve(3,4) this] show ?thesis by (simp add: serve(2))
qed (use assms(1) in \<open>simp_all add: lock_inv_more\<close>)

lemma reachable_lock: "reachable P st0 s \<Longrightarrow> lock_inv s"
proof (induction rule: reachable.induct)
  case (boot w)
  then show ?case by (simp add: lock_inv_def booted_def)
qed (rule sys_step_lock)

text \<open>The connection's client keeps it waiting in this state.\<close>

definition stalled :: "('c, 'w) system \<Rightarrow> nat \<Rightarrow> bool" where
  "stalled s i \<longleftrightarrow> (case sys_conns s ! i of (S, c) \<Rightarrow> client_stalls S c (sys_world s))"

context service_libs
begin

lemma sys_step_inv:
  assumes i: "sys_inv P entries valid st0 s" and st: "sys_step P a s s'"
  shows "sys_inv P entries valid st0 s'"
proof -
  have s: "inv (sys_state s)" "same_settings st0 (sys_state s)"
    "list_all (task_ok P st0) (sys_tasks s)" "list_all (\<lambda>(S, c). conn_ok P st0 c) (sys_conns s)"
    "lock_inv s'"
    using i sys_step_lock [OF _ st] by (simp_all add: sys_inv_def)
  show ?thesis using st
  proof (cases rule: sys_step.cases)
    case (run i t t' st w)
    have "task_ok P (sys_state s) t"
      using s(2,3) run(3,4) by (auto simp: task_ok_same list_all_length)
    from task_turn_facts [OF s(1) this run(6)]
    have "inv st" "same_settings (sys_state s) st" "task_ok P st0 t'"
      using task_ok_same [OF s(2), of P] by simp_all
    then show ?thesis using s same_settings_trans [OF s(2)]
      by (simp add: sys_inv_def run(2) list_all_update)
  next
    case (serve i S c c' st w)
    have "conn_ok P (sys_state s) c"
      using s(2,4) serve(3,4) by (auto simp: conn_ok_same list_all_length)
    from conn_turn_facts [OF s(1) this serve(6)]
    have c: "inv st" "same_settings (sys_state s) st" "conn_ok P st0 c'"
      using conn_ok_same [OF s(2), of P] by simp_all
    show ?thesis
      using s c same_settings_trans [OF s(2)] by (simp add: sys_inv_def serve(2) list_all_update)
  qed (use s in \<open>simp_all add: sys_inv_def accepted_ok\<close>)
qed

lemma reachable_inv:
  assumes "reachable P st0 s" "inv st0"
  shows "sys_inv P entries valid st0 s"
  using assms
proof (induction rule: reachable.induct)
  case (boot w)
  then show ?case by (simp add: sys_inv_def booted_def lock_inv_def)
next
  case (step s a s')
  then show ?case using sys_step_inv by blast
qed

text \<open>
  Nothing is stuck: a task or connection that has not ended can take its step, or waits for a
  lock whose holder can take its own and thereby releases it, unless the client of that
  connection keeps it waiting.
\<close>

lemma holder_releases:
  assumes "sys_inv P entries valid st0 s" "sys_lock s = Some i" "\<not> stalled s i"
  shows "\<exists>s'. sys_step P (Conn i) s s' \<and> sys_lock s' = None"
proof -
  obtain S c where sc: "sys_conns s ! i = (S, c)" by fastforce
  have "i < length (sys_conns s) \<and> conn_holds (snd (sys_conns s ! i))"
    using assms unfolding sys_inv_def lock_inv_def by blast
  with sc have c: "i < length (sys_conns s)" "sys_conns s ! i = (S, c)" "conn_holds c" by simp_all
  have ok: "inv (sys_state s)" "conn_ok P (sys_state s) c"
    using assms(1) c(1,2) by (auto simp: sys_inv_def conn_ok_same list_all_length)
  have "\<not> conn_done c" using c(3) by (cases c) auto
  then obtain c' st w where t: "conn_turn P S c (sys_state s) (sys_world s) = Some (c', st, w)"
    using conn_turn_progress [OF ok, of S "sys_world s"] assms(3) c(2)
    by (cases "conn_turn P S c (sys_state s) (sys_world s)") (auto simp: stalled_def)
  have "\<not> conn_holds c'" by (rule holds_released [OF t c(3)])
  moreover have "\<not> conn_locks P (sys_state s) c" by (rule holds_not_locks [OF c(3)])
  ultimately show ?thesis
    using sys_step.serve [OF c(1,2) _ t] assms(2) by (fastforce simp: lock_after_def)
qed

lemma task_moves:
  assumes "sys_inv P entries valid st0 s" "i < length (sys_tasks s)"
    "0 < steps_left (length (upstreams (svc_forwarder st0))) (sys_tasks s ! i)"
  shows "(\<exists>s'. sys_step P (Task i) s s'
      \<and> steps_left (length (upstreams (svc_forwarder st0))) (sys_tasks s' ! i)
        < steps_left (length (upstreams (svc_forwarder st0))) (sys_tasks s ! i))
    \<or> (\<exists>j. sys_lock s = Some j \<and> (stalled s j \<or> (\<exists>s'. sys_step P (Conn j) s s' \<and> sys_lock s' = None)))"
proof (cases "task_locks P (sys_state s) (sys_tasks s ! i) \<longrightarrow> sys_lock s = None")
  case False
  then show ?thesis using holder_releases [OF assms(1)] by auto
next
  case True
  have s: "inv (sys_state s)" "same_settings st0 (sys_state s)"
    using assms(1) by (simp_all add: sys_inv_def)
  then have n: "upstreams (svc_forwarder (sys_state s)) = upstreams (svc_forwarder st0)"
    by (simp add: same_settings_def)
  have ok: "task_ok P (sys_state s) (sys_tasks s ! i)"
    using assms(1,2) by (auto simp: sys_inv_def task_ok_same list_all_length)
  obtain t' st w where t: "task_turn P (sys_tasks s ! i) (sys_state s) (sys_world s) = Some (t', st, w)"
    using task_turn_progress [OF s(1) ok, of _ "sys_world s"] assms(3)
    by (cases "task_turn P (sys_tasks s ! i) (sys_state s) (sys_world s)") auto
  show ?thesis
    using sys_step.run [OF assms(2) refl True t] task_turn_facts [OF s(1) ok t] assms(2)
    by (fastforce simp: n)
qed

lemma conn_moves:
  assumes "sys_inv P entries valid st0 s" "i < length (sys_conns s)"
    "\<not> conn_done (snd (sys_conns s ! i))"
  shows "(\<exists>s'. sys_step P (Conn i) s s') \<or> stalled s i
    \<or> (\<exists>j. sys_lock s = Some j \<and> (stalled s j \<or> (\<exists>s'. sys_step P (Conn j) s s' \<and> sys_lock s' = None)))"
proof -
  obtain S c where c: "sys_conns s ! i = (S, c)" by fastforce
  show ?thesis
  proof (cases "conn_locks P (sys_state s) c \<longrightarrow> sys_lock s = None")
    case False
    then show ?thesis using holder_releases [OF assms(1)] by auto
  next
    case True
    have ok: "inv (sys_state s)" "conn_ok P (sys_state s) c"
      using assms(1,2) c by (auto simp: sys_inv_def conn_ok_same list_all_length)
    show ?thesis
    proof (cases "conn_turn P S c (sys_state s) (sys_world s)")
      case None
      then show ?thesis using conn_turn_progress [OF ok, of S "sys_world s"] assms(3) c
        by (simp add: stalled_def)
    next
      case (Some r)
      then show ?thesis using sys_step.serve [OF assms(2) c True] by (cases r) blast
    qed
  qed
qed

text \<open>
  So every query can be brought to its end, if the client of the connection that keeps the lock
  can take its reply in some world: induction on the steps of the query.
\<close>

lemma conn_step_tasks: "sys_step P (Conn j) s s' \<Longrightarrow> sys_tasks s' = sys_tasks s"
  by (auto elim!: conn_stepE)

lemma task_step_length:
  "sys_step P (Task i) s s' \<Longrightarrow> length (sys_tasks s') = length (sys_tasks s) \<and> sys_lock s' = sys_lock s"
  by (auto elim!: task_stepE)

lemma unlocked_task_moves:
  assumes "sys_inv P entries valid st0 s" "sys_lock s = None" "i < length (sys_tasks s)"
    "0 < steps_left (length (upstreams (svc_forwarder st0))) (sys_tasks s ! i)"
  shows "\<exists>s'. sys_step P (Task i) s s' \<and> length (sys_tasks s') = length (sys_tasks s)
    \<and> sys_lock s' = None \<and> steps_left (length (upstreams (svc_forwarder st0))) (sys_tasks s' ! i)
      < steps_left (length (upstreams (svc_forwarder st0))) (sys_tasks s ! i)"
  using task_moves [OF assms(1,3,4)] assms(2) task_step_length by (metis option.discI)

lemma task_can_finish:
  assumes "sys_inv P entries valid st0 s" "i < length (sys_tasks s)"
    and "\<And>j. sys_lock s = Some j \<Longrightarrow> \<exists>w. \<not> stalled (s\<lparr>sys_world := w\<rparr>) j"
  shows "\<exists>s'. sys_run P s s' \<and> i < length (sys_tasks s')
    \<and> steps_left (length (upstreams (svc_forwarder st0))) (sys_tasks s' ! i) = 0"
  using assms
proof (induction "steps_left (length (upstreams (svc_forwarder st0))) (sys_tasks s ! i)"
    arbitrary: s rule: less_induct)
  case less
  let ?left = "steps_left (length (upstreams (svc_forwarder st0)))"
  show ?case
  proof (cases "?left (sys_tasks s ! i) = 0")
    case False
    obtain s1 where s1: "sys_run P s s1" "sys_lock s1 = None" "sys_tasks s1 = sys_tasks s"
        "sys_inv P entries valid st0 s1"
    proof (cases "sys_lock s")
      case (Some j)
      obtain w where w: "\<not> stalled (s\<lparr>sys_world := w\<rparr>) j" using less.prems(3) [OF Some] by blast
      have out: "sys_step P Outside s (s\<lparr>sys_world := w\<rparr>)" by (rule sys_step.elsewhere)
      have inv: "sys_inv P entries valid st0 (s\<lparr>sys_world := w\<rparr>)"
        by (rule sys_step_inv [OF less.prems(1) out])
      obtain s' where s': "sys_step P (Conn j) (s\<lparr>sys_world := w\<rparr>) s'" "sys_lock s' = None"
        using holder_releases [OF inv _ w] Some by auto
      show ?thesis
        using that [OF sys_run_trans [OF sys_run_step [OF out] sys_run_step [OF s'(1)]] s'(2)]
          conn_step_tasks [OF s'(1)] sys_step_inv [OF inv s'(1)] by simp
    qed (use that [of s] less.prems(1) in simp)
    obtain s2 where s2: "sys_step P (Task i) s1 s2" "length (sys_tasks s2) = length (sys_tasks s)"
        "sys_lock s2 = None" "?left (sys_tasks s2 ! i) < ?left (sys_tasks s ! i)"
      using unlocked_task_moves [OF s1(4,2), of i] False less.prems(2) s1(3) by auto
    have "sys_inv P entries valid st0 s2" by (rule sys_step_inv [OF s1(4) s2(1)])
    then obtain s' where "sys_run P s2 s'" "i < length (sys_tasks s')" "?left (sys_tasks s' ! i) = 0"
      using less.hyps [OF s2(4)] s2(2,3) less.prems(2) by auto
    then show ?thesis
      using sys_run_trans [OF s1(1) sys_run_trans [OF sys_run_step [OF s2(1)]]] by blast
  qed (use less.prems in \<open>auto intro!: exI [of _ s]\<close>)
qed

end

section \<open>A client that does not read\<close>

text \<open>
  While a connection keeps the lock, steps of everybody else change neither the shared state
  nor a task or a connection that waits for the lock.
\<close>

definition waiters_stay :: "('c, 'w, 's) platform \<Rightarrow> ('c, 'w) system \<Rightarrow> ('c, 'w) system \<Rightarrow> bool" where
  "waiters_stay P s s' \<longleftrightarrow> sys_state s' = sys_state s
     \<and> (\<forall>j < length (sys_tasks s). j < length (sys_tasks s')
         \<and> (task_locks P (sys_state s) (sys_tasks s ! j) \<longrightarrow> sys_tasks s' ! j = sys_tasks s ! j))
     \<and> (\<forall>j < length (sys_conns s). j < length (sys_conns s')
         \<and> (conn_locks P (sys_state s) (snd (sys_conns s ! j)) \<longrightarrow> sys_conns s' ! j = sys_conns s ! j))"

lemma waiters_stay_refl [simp]: "waiters_stay P s s"
  by (simp add: waiters_stay_def)

lemma waiters_stay_trans: "waiters_stay P s1 s2 \<Longrightarrow> waiters_stay P s2 s3 \<Longrightarrow> waiters_stay P s1 s3"
  by (simp add: waiters_stay_def)

lemma accept_keeps:
  assumes "j < length conns"
  shows "j < length (accept_tcp x conns) \<and> accept_tcp x conns ! j = conns ! j"
    "j < length (accept_tls y conns) \<and> accept_tls y conns ! j = conns ! j"
  using assms by (auto simp: accept_tcp_def accept_tls_def nth_append split: sum.split)

lemma locked_step:
  assumes "sys_lock s = Some i" "sys_step P a s s'" "a \<noteq> Conn i" "i < length (sys_conns s)"
  shows "sys_lock s' = Some i \<and> sys_conns s' ! i = sys_conns s ! i \<and> waiters_stay P s s'"
  using assms(2)
proof (cases rule: sys_step.cases)
  case (run k t t' st w)
  then have "\<not> task_locks P (sys_state s) t" using assms(1) by simp
  with task_turn_unlocked [OF run(6)] run show ?thesis using assms(1)
    by (auto simp: nth_list_update waiters_stay_def)
next
  case (serve k S c c' st w)
  then have "\<not> conn_locks P (sys_state s) c" using assms(1) by simp
  moreover from this have "\<not> conn_holds c'" using conn_turn_holds [OF serve(6)] by blast
  ultimately show ?thesis
    using conn_turn_unlocked [OF serve(6)] serve(1-4) assms(1,3)
    by (auto simp: lock_after_def waiters_stay_def nth_list_update)
qed (use assms(1,4) in \<open>simp_all add: nth_append waiters_stay_def accept_keeps\<close>)

text \<open>A connection whose client never takes the cached reply never lets go of the lock.\<close>

lemma unread_step:
  assumes "sys_lock s = Some i" "i < length (sys_conns s)" "sys_conns s ! i = (S, SendingHit query r)"
    and "\<And>w. fst (send_framed S r w) = WritePending" "sys_step P a s s'"
  shows "a \<noteq> Conn i"
proof
  have stuck: "conn_turn P S (SendingHit query r) st w = None" for st w
    using assms(4) [of w] by (auto simp: conn_turn_def send_then_def split: prod.split write_result.split)
  assume "a = Conn i"
  with assms(5) show False using assms(3) stuck by (auto elim!: conn_stepE)
qed

lemma unread_run:
  assumes "sys_run P s s'" "sys_lock s = Some i" "i < length (sys_conns s)"
    and "sys_conns s ! i = (S, SendingHit query r)" "\<And>w. fst (send_framed S r w) = WritePending"
  shows "sys_lock s' = Some i \<and> i < length (sys_conns s') \<and> sys_conns s' ! i = (S, SendingHit query r)
    \<and> waiters_stay P s s'"
  using assms(1) unfolding sys_run_def
proof (induction rule: rtranclp_induct)
  case (step s1 s2)
  then obtain a where a: "sys_step P a s1 s2" by blast
  from unread_step [OF _ _ _ assms(5) this] step.IH have "a \<noteq> Conn i" by blast
  with locked_step [OF _ a] step.IH show ?case
    by (auto intro: waiters_stay_trans simp: waiters_stay_def)
qed (use assms in simp)

lemma unread_reply:
  assumes "reachable P st0 s" "i < length (sys_conns s)" "sys_conns s ! i = (S, SendingHit query r)"
    and "\<And>w. fst (send_framed S r w) = WritePending" "sys_run P s s'"
  shows "sys_lock s' = Some i \<and> waiters_stay P s s'"
proof -
  have "sys_lock s = Some i" using reachable_lock [OF assms(1)] assms(2,3) by (simp add: lock_inv_def)
  from unread_run [OF assms(5) this assms(2,3,4)] show ?thesis by blast
qed

end
