(* ===== verification/Runs.thy ===== *)
theory Runs
  imports System
begin

text \<open>
  The steps refine the functions of \<open>Server\<close>: a datagram's task that takes all the steps, with
  none of anybody else between them, gets what \<open>resolve_dns_query\<close> computes, and such a connection
  does what \<open>serve_tcp_dns\<close> does.
\<close>

section \<open>Runs of one task\<close>

definition lone_task :: "task \<Rightarrow> 'c dns_service_state \<Rightarrow> 'w \<Rightarrow> ('c, 'w) system" where
  "lone_task t st w = (booted st w)\<lparr>sys_tasks := [t]\<rparr>"

definition lone_conn :: "'w stream_api \<Rightarrow> conn \<Rightarrow> 'c dns_service_state \<Rightarrow> 'w \<Rightarrow> ('c, 'w) system" where
  "lone_conn S c st w = (booted st w)
     \<lparr>sys_lock := (if conn_holds c then Some 0 else None), sys_conns := [(S, c)]\<rparr>"

lemma run_task:
  "task_turn P t st w = Some (t', st', w') \<Longrightarrow> own_run P (Task 0) (lone_task t st w) (lone_task t' st' w')"
  using sys_step.run [of 0 "lone_task t st w" t P t' st' w']
  by (intro own_run_step) (simp add: lone_task_def booted_def)

lemma run_conn:
  assumes "conn_turn P S c st w = Some (c', st', w')"
  shows "own_run P (Conn 0) (lone_conn S c st w) (lone_conn S c' st' w')"
  using sys_step.serve [of 0 "lone_conn S c st w" S c P c' st' w'] assms holds_not_locks [of c P st]
  by (intro own_run_step) (auto simp: lone_conn_def booted_def lock_after_def split: if_splits)

text \<open>Forwarding, one upstream after the other.\<close>

lemma run_forwarding:
  assumes "forward_each (pf_net P) (svc_forwarder st) query us e w = (r, w')"
  shows "own_run P (Task 0) (lone_task (Forwarding query question us) st w)
    (case r of Inr resp \<Rightarrow> lone_task (Storing query question resp) st w'
     | Inl _ \<Rightarrow> lone_task (Finished query None) st w')"
  using assms
proof (induction us arbitrary: e w)
  case Nil
  then show ?case
    using run_task [of P "Forwarding query question []" st w "Finished query None" st w]
    by (auto simp: task_turn_def)
next
  case (Cons u us)
  obtain x w1 where x: "forward_one (pf_net P) (svc_forwarder st) query u w = (x, w1)" by fastforce
  show ?case
  proof (cases x)
    case (Inl e1)
    have "task_turn P (Forwarding query question (u # us)) st w =
        Some (Forwarding query question us, st, w1)"
      using x Inl by (simp add: task_turn_def)
    from own_run_trans [OF run_task [OF this] Cons.IH [of e1 w1]] show ?thesis
      using Cons.prems x Inl by simp
  next
    case (Inr resp)
    then show ?thesis
      using Cons.prems x run_task [of P "Forwarding query question (u # us)" st w
        "Storing query question resp" st w1] by (auto simp: task_turn_def)
  qed
qed

lemma run_asking:
  assumes "forward_each (pf_net P) (svc_forwarder st) query us e w = (r, w')"
  shows "own_run P (Conn 0) (lone_conn S (Asking query packet question us) st w)
    (case r of Inr resp \<Rightarrow> lone_conn S (SendingAnswer query question resp) st w'
     | Inl _ \<Rightarrow> lone_conn S (SendingFailure query (servfail_reply (pf_buf P) packet)) st w')"
  using assms
proof (induction us arbitrary: e w)
  case Nil
  then show ?case
    using run_conn [of P S "Asking query packet question []" st w
      "SendingFailure query (servfail_reply (pf_buf P) packet)" st w]
    by (auto simp: conn_turn_def)
next
  case (Cons u us)
  obtain x w1 where x: "forward_one (pf_net P) (svc_forwarder st) query u w = (x, w1)" by fastforce
  show ?case
  proof (cases x)
    case (Inl e1)
    have "conn_turn P S (Asking query packet question (u # us)) st w =
        Some (Asking query packet question us, st, w1)"
      using x Inl by (simp add: conn_turn_def)
    from own_run_trans [OF run_conn [OF this] Cons.IH [of e1 w1]] show ?thesis
      using Cons.prems x Inl by simp
  next
    case (Inr resp)
    then show ?thesis
      using Cons.prems x run_conn [of P S "Asking query packet question (u # us)" st w
        "SendingAnswer query question resp" st w1] by (auto simp: conn_turn_def)
  qed
qed

text \<open>The whole loop over the upstreams; \<open>e\<close> is what the loop starts with.\<close>

lemma forward_raw_each:
  assumes "forward_raw N f query w = (r, w')"
  shows "\<exists>e r'. forward_each N f query (upstreams f) e w = (r', w')
    \<and> ((\<exists>resp. r = Inr resp \<and> r' = Inr resp) \<or> (\<exists>a b. r = Inl a \<and> r' = Inl b))"
proof (cases "upstreams f = []")
  case True
  then show ?thesis using assms by (auto simp: forward_raw_def)
next
  case False
  then show ?thesis using assms unfolding forward_raw_def
    by (cases r) (auto intro!: exI [of _ "ParseError ''no upstream attempted''"])
qed

lemma run_forward_raw:
  assumes "forward_raw (pf_net P) (svc_forwarder st) query w = (r, w')"
  shows "own_run P (Task 0) (lone_task (Forwarding query question (upstreams (svc_forwarder st))) st w)
      (case r of Inr resp \<Rightarrow> lone_task (Storing query question resp) st w'
       | Inl _ \<Rightarrow> lone_task (Finished query None) st w')"
    and "own_run P (Conn 0) (lone_conn S (Asking query packet question (upstreams (svc_forwarder st))) st w)
      (case r of Inr resp \<Rightarrow> lone_conn S (SendingAnswer query question resp) st w'
       | Inl _ \<Rightarrow> lone_conn S (SendingFailure query (servfail_reply (pf_buf P) packet)) st w')"
proof -
  obtain e r' where f: "forward_each (pf_net P) (svc_forwarder st) query (upstreams (svc_forwarder st)) e w = (r', w')"
    "(\<exists>resp. r = Inr resp \<and> r' = Inr resp) \<or> (\<exists>a b. r = Inl a \<and> r' = Inl b)"
    using forward_raw_each [OF assms] by blast
  note rf = run_forwarding [OF f(1), of question] and ra = run_asking [OF f(1), of S packet question]
  show "own_run P (Task 0) (lone_task (Forwarding query question (upstreams (svc_forwarder st))) st w)
      (case r of Inr resp \<Rightarrow> lone_task (Storing query question resp) st w'
       | Inl _ \<Rightarrow> lone_task (Finished query None) st w')"
    using rf f(2) by auto
  show "own_run P (Conn 0) (lone_conn S (Asking query packet question (upstreams (svc_forwarder st))) st w)
      (case r of Inr resp \<Rightarrow> lone_conn S (SendingAnswer query question resp) st w'
       | Inl _ \<Rightarrow> lone_conn S (SendingFailure query (servfail_reply (pf_buf P) packet)) st w')"
    using ra f(2) by auto
qed

section \<open>A datagram\<close>

lemma resolve_as_steps:
  assumes "resolve_dns_query P query st w = (Ok r, st', w')"
  shows "own_run P (Task 0) (lone_task (Arrived query) st w) (lone_task (Finished query r) st' w')"
proof -
  obtain f st1 w1 where f: "resolve_front P query st w = (f, st1, w1)" by (metis prod.collapse)
  then obtain x where x: "f = Ok x" using assms by (cases f) (auto simp: resolve_dns_query_def)
  show ?thesis
  proof (cases x)
    case (NeedUpstream packet question)
    then have 1: "task_turn P (Arrived query) st w =
        Some (Forwarding query question (upstreams (svc_forwarder st1)), st1, w1)"
      using f x by (simp add: task_turn_def)
    obtain u w2 where u: "forward_raw (pf_net P) (svc_forwarder st1) query w1 = (u, w2)" by fastforce
    note 2 = own_run_trans [OF run_task [OF 1] run_forward_raw(1) [OF u]]
    show ?thesis
    proof (cases u)
      case (Inl e)
      then show ?thesis using 2 assms f x NeedUpstream u by (auto simp: resolve_dns_query_def)
    next
      case (Inr resp)
      have "task_turn P (Storing query question resp) st1 w2 = Some (Finished query r, st', w')"
        using assms f x NeedUpstream u Inr
        by (auto simp: resolve_dns_query_def task_turn_def split: prod.splits outcome.splits)
      from own_run_trans [OF 2 [unfolded Inr sum.case] run_task [OF this]] show ?thesis .
    qed
  qed (use assms f x in \<open>auto simp: resolve_dns_query_def task_turn_def intro!: run_task\<close>)
qed

section \<open>A connection\<close>

text \<open>Where a connection stands after a turn of its loop.\<close>

fun after_turn :: "(string, turn) outcome \<Rightarrow> conn option" where
  "after_turn (Ok Again) = Some Reading"
| "after_turn (Ok Closed) = Some (Ended (Inr ()))"
| "after_turn (Err e) = Some (Ended (Inl e))"
| "after_turn _ = None"

text \<open>A write and what follows it, where the outcome of the turn is known.\<close>

lemma run_try_write:
  assumes "try_write (send_framed S reply w) st k = (r, st', w')" "after_turn r = Some c"
    and "\<And>st. conn_turn P S c0 st w = send_then S reply onward st w"
    and "\<And>w1. k w1 = (r, st', w') \<Longrightarrow> own_run P (Conn 0) (lone_conn S onward st w1) (lone_conn S c st' w')"
  shows "own_run P (Conn 0) (lone_conn S c0 st w) (lone_conn S c st' w')"
  using assms(1)
proof (cases rule: try_writeE)
  case (sent w1)
  have "conn_turn P S c0 st w = Some (onward, st, w1)" using assms(3) sent(1) by (simp add: send_then_def)
  from own_run_trans [OF run_conn [OF this] assms(4) [OF sent(2)]] show ?thesis .
next
  case (failed e)
  then show ?thesis using assms(2,3) by (intro run_conn) (simp add: send_then_def)
qed (use assms(2) in simp)

lemma run_flush:
  assumes "drop_write (strm_flush S w) st (\<lambda>w. (Ok Again, st, w)) = (r, st', w')" "after_turn r = Some c"
  shows "own_run P (Conn 0) (lone_conn S Flushing st w) (lone_conn S c st' w')"
  using assms by (intro run_conn)
    (auto simp: conn_turn_def write_then_def drop_write_def split: prod.splits write_result.splits)

lemma store_response_no_error:
  "store_response P question resp st w = (x, st', w') \<Longrightarrow> x \<noteq> Err e"
  by (auto simp: store_response_def cache_insert_def Let_def or_panic_def
      split: outcome.splits prod.splits option.splits)

lemma write_then_goes: "fst rw \<noteq> WritePending \<Longrightarrow> write_then rw k = k (snd rw)"
  by (cases rw; cases "fst rw") (auto simp: write_then_def)

lemma tcp_forward_as_steps:
  assumes "tcp_forward P S query packet question st w = (r, st', w')" "after_turn r = Some c"
  shows "own_run P (Conn 0) (lone_conn S (Asking query packet question (upstreams (svc_forwarder st))) st w)
    (lone_conn S c st' w')"
proof -
  obtain u w1 where u: "forward_raw (pf_net P) (svc_forwarder st) query w = (u, w1)" by fastforce
  note 1 = run_forward_raw(2) [OF u, of S packet question]
  show ?thesis
  proof (cases u)
    case (Inl e)
    let ?r = "servfail_reply (pf_buf P) packet"
    have "drop_write (strm_write_all S (bytes16 (word_of_nat (length ?r))) w1) st (\<lambda>w.
        drop_write (strm_write_all S ?r w) st (\<lambda>w.
        drop_write (strm_flush S w) st (\<lambda>w. (Ok Again, st, w)))) = (r, st', w')"
      using assms(1) u Inl by (simp add: tcp_forward_def Let_def)
    then obtain w2 where w2: "conn_turn P S (SendingFailure query ?r) st w1 = Some (Flushing, st, w2)"
        "drop_write (strm_flush S w2) st (\<lambda>w. (Ok Again, st, w)) = (r, st', w')"
      using assms(2) by (auto simp: conn_turn_def write_then_goes drop_write_def elim!: drop_writeE
          split: prod.splits write_result.splits)
    from own_run_trans [OF 1 [unfolded Inl sum.case] own_run_trans [OF run_conn [OF w2(1)]
        run_flush [OF w2(2) assms(2)]]] show ?thesis .
  next
    case (Inr resp)
    have t: "try_write (send_framed S resp w1) st (\<lambda>w.
        case store_response P question resp st w of
          (Panic, st, w) \<Rightarrow> (Panic, st, w)
        | (Hang, st, w) \<Rightarrow> (Hang, st, w)
        | (_, st, w) \<Rightarrow> drop_write (strm_flush S w) st (\<lambda>w. (Ok Again, st, w))) = (r, st', w')"
      using assms(1) u Inr by (simp add: tcp_forward_def)
    have "own_run P (Conn 0) (lone_conn S (SendingAnswer query question resp) st w1) (lone_conn S c st' w')"
    proof (rule run_try_write [OF t assms(2)])
      fix w2
      assume k: "(case store_response P question resp st w2 of
          (Panic, st, w) \<Rightarrow> (Panic, st, w)
        | (Hang, st, w) \<Rightarrow> (Hang, st, w)
        | (_, st, w) \<Rightarrow> drop_write (strm_flush S w) st (\<lambda>w. (Ok Again, st, w))) = (r, st', w')"
      obtain x st2 w3 where x: "store_response P question resp st w2 = (x, st2, w3)"
        by (metis prod.collapse)
      have ok: "x = Ok ()" using k x assms(2) store_response_no_error [OF x] by (cases x) auto
      have 2: "conn_turn P S (Keeping query question resp) st w2 = Some (Flushing, st2, w3)"
        using x ok by (simp add: conn_turn_def)
      have 3: "drop_write (strm_flush S w3) st2 (\<lambda>w. (Ok Again, st2, w)) = (r, st', w')"
        using k x ok by simp
      from own_run_trans [OF run_conn [OF 2] run_flush [OF 3 assms(2)]]
      show "own_run P (Conn 0) (lone_conn S (Keeping query question resp) st w2) (lone_conn S c st' w')" .
    qed (simp add: conn_turn_def)
    from own_run_trans [OF 1 [unfolded Inr sum.case] this] show ?thesis .
  qed
qed

lemma tcp_answer_as_steps:
  assumes "tcp_answer P S query st w = (r, st', w')" "after_turn r = Some c"
  shows "own_run P (Conn 0) (lone_conn S (Deciding query) st w) (lone_conn S c st' w')"
proof -
  obtain f st1 w1 where f: "resolve_front P query st w = (f, st1, w1)" by (metis prod.collapse)
  then obtain x where x: "f = Ok x" using assms
    by (cases f) (auto simp: tcp_answer_front resolve_front_def
        split: outcome.splits list.splits filter_result.splits prod.splits option.splits)
  note ans = assms(1) [unfolded tcp_answer_front f x prod.case outcome.case]
  have sent: "own_run P (Conn 0) (lone_conn S (Deciding query) st w) (lone_conn S c st' w')"
    if "conn_turn P S (Deciding query) st w = Some (c1, st1, w1)"
      and "\<And>st. conn_turn P S c1 st w1 = send_then S reply Reading st w1"
      and "try_write (send_framed S reply w1) st1 (\<lambda>w. (Ok Again, st1, w)) = (r, st', w')" for c1 reply
  proof (rule own_run_trans [OF run_conn [OF that(1)]], rule run_try_write [OF that(3) assms(2) that(2)])
    fix w2
    assume "(Ok Again, st1, w2) = (r, st', w')"
    then show "own_run P (Conn 0) (lone_conn S Reading st1 w2) (lone_conn S c st' w')"
      using assms(2) by (auto simp: own_run_def)
  qed
  show ?thesis
  proof (cases x)
    case (Reply o1)
    show ?thesis
    proof (cases o1)
      case None
      have "conn_turn P S (Deciding query) st w = Some (c, st', w')"
        using ans f x Reply None assms(2) by (auto simp: conn_turn_def)
      then show ?thesis by (rule run_conn)
    next
      case (Some reply)
      show ?thesis
        by (rule sent [of "Sending query reply" reply])
          (use ans f x Reply Some in \<open>auto simp: conn_turn_def\<close>)
    qed
  next
    case (CacheHit reply)
    show ?thesis
      by (rule sent [of "SendingHit query reply" reply])
        (use ans f x CacheHit in \<open>auto simp: conn_turn_def\<close>)
  next
    case (NeedUpstream packet question)
    have 1: "conn_turn P S (Deciding query) st w =
        Some (Asking query packet question (upstreams (svc_forwarder st1)), st1, w1)"
      using f x NeedUpstream by (simp add: conn_turn_def)
    have 2: "tcp_forward P S query packet question st1 w1 = (r, st', w')"
      using ans NeedUpstream by simp
    from own_run_trans [OF run_conn [OF 1] tcp_forward_as_steps [OF 2 assms(2)]] show ?thesis .
  qed
qed

lemma tcp_turn_as_steps:
  assumes "tcp_turn P S st w = (r, st', w')" "after_turn r = Some c"
  shows "own_run P (Conn 0) (lone_conn S Reading st w) (lone_conn S c st' w')"
proof -
  obtain m w1 where m: "read_message S w = (m, w1)" by fastforce
  show ?thesis
  proof (cases "\<exists>query. m = Ok (Some query)")
    case True
    then obtain query where q: "m = Ok (Some query)" by blast
    have 1: "conn_turn P S Reading st w = Some (Deciding query, st, w1)"
      using m q by (simp add: conn_turn_def)
    have 2: "tcp_answer P S query st w1 = (r, st', w')"
      using assms(1) m q by (simp add: tcp_turn_def)
    from own_run_trans [OF run_conn [OF 1] tcp_answer_as_steps [OF 2 assms(2)]] show ?thesis .
  next
    case False
    have "conn_turn P S Reading st w = Some (c, st', w')"
      using assms m False by (auto simp: tcp_turn_def conn_turn_def split: outcome.splits option.splits)
    then show ?thesis by (rule run_conn)
  qed
qed

fun outcome_end :: "(string, unit) outcome \<Rightarrow> conn option" where
  "outcome_end (Ok _) = Some (Ended (Inr ()))"
| "outcome_end (Err e) = Some (Ended (Inl e))"
| "outcome_end _ = None"

lemma serve_as_steps:
  assumes "serve_tcp_dns P S st w = Some (r, st', w')" "outcome_end r = Some c"
  shows "own_run P (Conn 0) (lone_conn S Reading st w) (lone_conn S c st' w')"
proof -
  let ?good = "\<lambda>(((P', S'), st0), w0) x. P' = P \<longrightarrow> S' = S \<longrightarrow>
    (case x of (r, st', w') \<Rightarrow> outcome_end r = Some c \<longrightarrow>
      own_run P (Conn 0) (lone_conn S Reading st0 w0) (lone_conn S c st' w'))"
  have "?good (((P, S), st), w) (r, st', w')"
  proof (rule serve_tcp_dns.raw_induct [where Pa = ?good, OF _ assms(1)])
    fix serve P' S' st0 w0 x
    assume IH: "\<And>S st w b y. serve S st w b = Some y \<Longrightarrow> ?good (((S, st), w), b) y"
      and eq: "(case tcp_turn P' S' st0 w0 of (Ok Again, st, w) \<Rightarrow> serve P' S' st w
        | (Ok Closed, st, w) \<Rightarrow> Some (Ok (), st, w) | (Err e, st, w) \<Rightarrow> Some (Err e, st, w)
        | (Panic, st, w) \<Rightarrow> Some (Panic, st, w) | (Hang, st, w) \<Rightarrow> Some (Hang, st, w)) = Some x"
    obtain t st1 w1 where t: "tcp_turn P' S' st0 w0 = (t, st1, w1)" by (metis prod.collapse)
    have "case x of (r, st', w') \<Rightarrow> outcome_end r = Some c \<longrightarrow>
        own_run P (Conn 0) (lone_conn S Reading st0 w0) (lone_conn S c st' w')"
      if p: "P' = P" "S' = S"
    proof (cases "t = Ok Again")
      case True
      then have "serve P' S' st1 w1 = Some x" using eq t by simp
      from IH [OF this] p tcp_turn_as_steps [of P S st0 w0 t st1 w1 Reading] t True
      show ?thesis by (auto intro: own_run_trans)
    next
      case False
      then show ?thesis using eq t p tcp_turn_as_steps [of P S st0 w0 t st1 w1 c]
        by (auto split: outcome.splits turn.splits)
    qed
    then show "?good (((P', S'), st0), w0) x" by simp
  qed
  then show ?thesis using assms(2) by simp
qed

section \<open>Reachable states\<close>

lemma reachable_run: "sys_run P s s' \<Longrightarrow> reachable P st0 s \<Longrightarrow> reachable P st0 s'"
  unfolding sys_run_def by (induction rule: rtranclp_induct) (auto intro: reachable.step)

lemma reachable_own: "own_run P a s s' \<Longrightarrow> reachable P st0 s \<Longrightarrow> reachable P st0 s'"
  by (rule reachable_run [OF own_run_sys])

lemma reachable_task: "length query \<le> 4096 \<Longrightarrow> reachable P st0 (lone_task (Arrived query) st0 w)"
  using reachable.step [OF reachable.boot sys_step.receive, of P st0 w query]
  by (simp add: lone_task_def booted_def)

lemma reachable_conn: "reachable P st0 (lone_conn S Reading st0 w)"
  using reachable.step [OF reachable.boot sys_step.tcp [of P "booted st0 w" "Inr S"]]
  by (simp add: lone_conn_def booted_def accept_tcp_def)

end
