(* ===== verification/Examples.thy ===== *)
theory Examples
  imports Runs
begin

text \<open>
  A worked example on concrete libraries, on which the properties are instantiated: a server started without a configuration file, on the list store and a network whose only
  upstream answers every query for \<open>a\<close> with 192.0.2.1.
\<close>

definition sample_query :: "u8 list" where
  "sample_query = [0x12, 0x34, 1, 0, 0, 1, 0, 0, 0, 0, 0, 0, 1, 0x61, 0, 0, 1, 0, 1]"

definition sample_answer :: "u8 list" where
  "sample_answer = [0x12, 0x34, 0x81, 0x80, 0, 1, 0, 1, 0, 0, 0, 0, 1, 0x61, 0, 0, 1, 0, 1,
     1, 0x61, 0, 0, 1, 0, 1, 0, 0, 0, 60, 0, 4, 192, 0, 2, 1]"

definition sample_question :: dns_question where
  "sample_question = \<lparr>q_name = lit ''a'', q_type = QT_A, q_class = QC_IN\<rparr>"

definition query_packet :: dns_packet where
  "query_packet = \<lparr>header = \<lparr>id_of = 0x1234, is_response = False, opcode_of = Query,
       authoritative_answer = False, truncated = False, recursion_desired = True,
       recursion_available = False, rcode = NoError, qdcount = 1, ancount = 0, nscount = 0,
       arcount = 0\<rparr>,
     questions = [sample_question], answers = [], authorities = [], additionals = []\<rparr>"

definition answer_packet :: dns_packet where
  "answer_packet = query_packet
     \<lparr>header := (header query_packet)\<lparr>is_response := True, recursion_available := True, ancount := 1\<rparr>,
      answers := [\<lparr>rr_name = lit ''a'', rr_type = QT_A, rr_class = QC_IN, rr_ttl = 60,
        rr_data = RD_A (Ipv4 192 0 2 1)\<rparr>]\<rparr>"

lemma sample_query_parse: "packet_parse slice_api U sample_query = Ok query_packet"
  by (simp add: parse_eval sample_query_def query_packet_def sample_question_def lit_simps)

lemma sample_answer_parse: "packet_parse slice_api U sample_answer = Ok answer_packet"
  by (simp add: parse_eval sample_answer_def answer_packet_def query_packet_def sample_question_def
      ipv4_from_def lit_simps)

definition no_file :: "rstr \<Rightarrow> string + rstr" where
  "no_file path = Inl ''No such file or directory''"

definition sample_platform ::
  "('w \<Rightarrow> nat \<times> 'w) \<Rightarrow> unicode \<Rightarrow> (nat \<times> (cache_key \<times> cached_response) list, 'w, unit) platform" where
  "sample_platform tick U = list_platform U (fixed_net tick sample_answer)"

definition clock :: "nat \<Rightarrow> nat \<times> nat" where
  "clock t = (t, Suc t)"

definition sample_service :: "unicode \<Rightarrow> (nat \<times> (cache_key \<times> cached_response) list) dns_service_state" where
  "sample_service U = start_service (sample_platform clock U) (\<lambda>x. None) sample_toml no_file (lit ''f'')"

lemma sample_platform_simps [simp]:
  "pf_buf (sample_platform tick U) = slice_api" "pf_unicode (sample_platform tick U) = U"
  "pf_lru (sample_platform tick U) = list_lru" "pf_net (sample_platform tick U) = fixed_net tick sample_answer"
  by (simp_all add: sample_platform_def list_platform_def)

lemma sample_service_simps [simp]:
  "svc_cache (sample_service U) = cache_new list_lru 10000 60 86400"
  "svc_forwarder (sample_service U) =
     with_upstreams [\<lparr>up_addr = SockV4 (Ipv4 127 0 0 1) 5335, up_transport = Udp\<rparr>] 5"
  "svc_filter (sample_service U) = engine_new" "svc_block_mode (sample_service U) = lit ''nxdomain''"
  using parse_v4_example
  by (simp_all add: sample_service_def start_service_def effective_config_def load_from_file_def
      no_file_def server_config_default_def resolve_upstreams_def load_filters_def Let_def
      del: lit_simps)

lemma sample_libs: "service_libs (sample_platform tick U) snd list_lru_valid"
  unfolding sample_platform_def by (rule list_service.service_libs_axioms)

lemma sample_service_start:
  "start_service (sample_platform tick U) (\<lambda>x. None) sample_toml no_file (lit ''f'') = sample_service U"
  by (simp add: sample_service_def start_service_def)

lemma sample_service_inv: "svc_inv (sample_platform tick U) snd list_lru_valid (sample_service U)"
  unfolding sample_service_start [where tick = tick, symmetric]
  by (rule service_libs.start_service_inv [OF sample_libs])

lemma engine_new_allows: "evaluate U engine_new d = Allowed"
  by (simp add: evaluate_def engine_new_def trie_matches_def trie_new_def Let_def parent_matches_iff)

lemma sample_forward:
  "forward_raw (fixed_net tick sample_answer) (svc_forwarder (sample_service U)) q w = (Inr sample_answer, w)"
  by (simp add: forward_raw_def with_upstreams_def forward_one_def forward_udp_def
      attempt_io_def attempt_timed_def fixed_net_def sample_answer_def)

lemma sample_front:
  "\<exists>st w1. resolve_front (sample_platform tick U) sample_query (sample_service U) w =
     (Ok (NeedUpstream query_packet sample_question), st, w1)"
proof -
  obtain hit st w1 where l:
    "lookup_cache (sample_platform tick U) sample_question (sample_service U) w = (hit, st, w1)"
    by (metis prod.collapse)
  from service_libs.lookup_cache_facts(3) [OF sample_libs sample_service_inv l]
  have "hit = None" by (simp add: list_cache.cache_new_inv)
  moreover have "questions query_packet = [sample_question]" by (simp add: query_packet_def)
  ultimately show ?thesis using l
    by (simp add: resolve_front_def sample_query_parse engine_new_allows)
qed

lemma sample_resolution:
  "\<exists>st w1. resolve_dns_query (sample_platform tick U) sample_query (sample_service U) w =
     (Ok (Some sample_answer), st, w1)"
proof -
  obtain st w1 where f: "resolve_front (sample_platform tick U) sample_query (sample_service U) w =
      (Ok (NeedUpstream query_packet sample_question), st, w1)"
    using sample_front [where tick = tick and U = U and w = w] by blast
  note ff = service_libs.resolve_front_facts [OF sample_libs sample_service_inv f]
  have u: "forward_raw (pf_net (sample_platform tick U)) (svc_forwarder st) sample_query w1 = (Inr sample_answer, w1)"
    using sample_forward [where tick = tick and U = U and q = sample_query and w = w1] ff(2) by (simp add: same_settings_def)
  have q: "asks (sample_platform tick U) sample_query query_packet sample_question"
    "\<not> is_blocked (pf_unicode (sample_platform tick U)) (svc_filter st) (q_name sample_question)"
    using ff(6) ff(2) by (auto simp: same_settings_def)
  obtain x st2 w2 where x: "store_response (sample_platform tick U) sample_question sample_answer st w1 = (x, st2, w2)"
    by (metis prod.collapse)
  have "x = Ok ()"
    using service_libs.store_response_facts(3) [OF sample_libs ff(1) q forward_raw_answered [OF u] x]
    by (simp add: sample_answer_parse)
  then show ?thesis using f u x by (simp add: resolve_dns_query_def)
qed

text \<open>The service with the answer in its cache, and the same query from another client.\<close>

definition cached_service :: "unicode \<Rightarrow> (nat \<times> (cache_key \<times> cached_response) list) dns_service_state" where
  "cached_service U = (sample_service U)\<lparr>svc_cache := (svc_cache (sample_service U))
     \<lparr>store := lru_put list_lru (lit ''a'', QT_A)
        (new_entry (from_secs 60) (from_secs 86400) 0 QT_A answer_packet)
        (store (svc_cache (sample_service U)))\<rparr>\<rparr>"

lemma sample_key: "cache_key U (q_name sample_question) (q_type sample_question) = (lit ''a'', QT_A)"
  by (simp add: sample_question_def key_eval)

lemma sample_asks: "asks (sample_platform tick U) sample_query query_packet sample_question"
  by (simp add: asks_def sample_query_parse query_packet_def)

lemma sample_answered: "answered (sample_platform tick U) (sample_service U) sample_query sample_answer"
  by (rule forward_raw_answered [where w = undefined and w' = undefined])
    (simp add: sample_forward del: sample_service_simps)

lemma cached_service_inv: "svc_inv (sample_platform tick U) snd list_lru_valid (cached_service U)"
proof -
  let ?P = "sample_platform tick U" and ?S = "sample_service U"
  let ?e = "new_entry (from_secs 60) (from_secs 86400) 0 QT_A answer_packet"
  note libs = sample_libs [of tick U]
  have c: "cache_inv snd list_lru_valid (svc_cache ?S)"
    using sample_service_inv [of tick U] by (simp add: svc_inv_def)
  have ins: "cache_insert U list_lru 0 (lit ''a'') QT_A answer_packet (svc_cache ?S) =
      Ok (svc_cache (cached_service U))"
    using list_cache.cache_insert_eq [OF c, of U 0 "lit ''a''" QT_A answer_packet]
      list_cache.cache_new_inv(3) [of 60 86400 10000]
    by (simp add: cached_service_def cache_new_def key_eval list_lru_def Let_def)
  have "from_upstream ?P ?S (lit ''a'', QT_A) answer_packet"
    unfolding from_upstream_def
    using sample_asks [of tick U] sample_answered [of tick U] sample_key [of U] engine_new_allows [of U]
    by (simp add: is_blocked_def) (metis sample_answer_parse)
  moreover have "min_ttl (svc_cache ?S) = from_secs 60" "max_ttl (svc_cache ?S) = from_secs 86400"
    by (simp_all add: cache_new_def Let_def)
  ultimately have "svc_inv ?P snd list_lru_valid (?S\<lparr>svc_cache := svc_cache (cached_service U)\<rparr>)"
    using service_libs.inv_add [OF libs sample_service_inv
        list_cache.cache_insert_inv(1) [OF c ins] list_cache.cache_insert_map(2) [OF c ins]]
    by (simp add: key_eval new_entry_def)
  then show ?thesis by (simp add: cached_service_def)
qed

lemma cached_service_map:
  "cache_map snd (svc_cache (cached_service U)) (lit ''a'', QT_A) =
     Some (new_entry (from_secs 60) (from_secs 86400) 0 QT_A answer_packet)"
  by (simp add: cached_service_def cache_map_def list_lru_def cache_new_def Let_def)

definition second_query :: "u8 list" where
  "second_query = [0xAB, 0xCD] @ drop 2 sample_query"

lemma second_query_parse: "packet_parse slice_api U second_query =
    Ok (query_packet\<lparr>header := (header query_packet)\<lparr>id_of := 0xABCD\<rparr>\<rparr>)"
  by (simp add: parse_eval second_query_def sample_query_def query_packet_def sample_question_def lit_simps)

text \<open>
  A connection in memory: the world is the clock, the bytes the client still sends and the bytes
  it has been sent.
\<close>

type_synonym wire = "nat \<times> u8 list \<times> u8 list"

definition wire_clock :: "wire \<Rightarrow> nat \<times> wire" where
  "wire_clock = (\<lambda>(t, i, out). (t, (Suc t, i, out)))"

definition mem_stream :: "wire stream_api" where
  "mem_stream = \<lparr>
     strm_read_exact = (\<lambda>n (t, i, out).
       if n \<le> length i then (ReadDone (take n i), (t, drop n i, out))
       else (ReadEof ''early eof'', (t, [], out))),
     strm_write_all = (\<lambda>bs (t, i, out). (Written, (t, i, out @ bs))),
     strm_flush = (\<lambda>w. (Written, w))\<rparr>"

text \<open>A client that does not read what it is sent, and one that keeps the connection open in silence.\<close>

definition unread_stream :: "wire stream_api" where
  "unread_stream = mem_stream\<lparr>strm_write_all := (\<lambda>bs w. (WritePending, w))\<rparr>"

definition idle_stream :: "wire stream_api" where
  "idle_stream = mem_stream\<lparr>strm_read_exact := (\<lambda>n (t, i, out).
     if n \<le> length i then (ReadDone (take n i), (t, drop n i, out)) else (ReadPending, (t, [], out)))\<rparr>"

definition wire_sent :: "wire \<Rightarrow> u8 list" where
  "wire_sent w = snd (snd w)"

definition wire_avail :: "wire \<Rightarrow> nat" where
  "wire_avail w = length (fst (snd w))"

lemma mem_records: "records_output mem_stream (fixed_net wire_clock reply) wire_sent"
  by (auto simp: records_output_def mem_stream_def wire_sent_def wire_clock_def reflp_def
      intro!: fixed_net_keeps)

lemma mem_finite:
  "finite_input mem_stream (fixed_net wire_clock reply) wire_avail"
  "finite_input idle_stream (fixed_net wire_clock reply) wire_avail"
  by (auto simp: finite_input_def mem_stream_def idle_stream_def wire_avail_def wire_clock_def
      reflp_def intro!: fixed_net_keeps split: if_splits)

lemma mem_responsive: "responsive mem_stream"
  by (simp add: responsive_def mem_stream_def split_beta)

end
