(* ===== verification/Replies.thy ===== *)
theory Replies
  imports Examples
begin

text \<open>
  Replies on the wire: what the client of a blocked name receives in either block mode, and
  which identifier a reply from the cache carries.
\<close>

lemma service_libs_intro:
  "byte_io (pf_buf P) \<Longrightarrow> response_store (pf_lru P) entries valid \<Longrightarrow> service_libs P entries valid"
  by (rule service_libs.intro)

lemma sample_buf: "byte_io (pf_buf (sample_platform tick U))"
  and sample_lru: "response_store (pf_lru (sample_platform tick U)) snd list_lru_valid"
  by (simp_all add: slice.byte_io_axioms list_cache.response_store_axioms)

text \<open>The reply to a blocked name, on the wire.\<close>

lemma counted_header_idem [simp]:
  "counted_header (p\<lparr>header := h\<rparr>) = h
     \<lparr>qdcount := word_of_nat (length (questions p)), ancount := word_of_nat (length (answers p)),
      nscount := word_of_nat (length (authorities p)), arcount := word_of_nat (length (additionals p))\<rparr>"
  by (simp add: counted_header_def)

lemma wire_packet_header [simp]: "wire_packet U (p\<lparr>header := h\<rparr>) = wire_packet U p"
  by (simp add: wire_packet_def)

lemma blocked_front:
  assumes "packet_parse (pf_buf P) (pf_unicode P) query = Ok packet" "questions packet = question # rest"
    and "is_blocked (pf_unicode P) (svc_filter st) (q_name question)"
  shows "resolve_dns_query P query st w = (Ok (Some (blocked_reply P st packet)), st, w)"
  using assms
  by (auto simp: resolve_dns_query_def resolve_front_def is_blocked_def split: filter_result.splits)

lemma is_blocked_iff:
  assumes "engine_inv e" "hostname d"
  shows "is_blocked U e d \<longleftrightarrow>
    (let n = map ascii_lower (trim_end_char 46 d) in
     covers (block_names e) n \<and> \<not> covers (allow_names e) n)"
  using normalize_idem [OF assms(2), of U]
  by (simp add: is_blocked_def evaluate_covers [OF assms(1)] normalize_hostname [OF assms(2)] Let_def)

definition nxdomain_reply :: "dns_packet \<Rightarrow> dns_packet" where
  "nxdomain_reply p = p\<lparr>header := (counted_header p)\<lparr>is_response := True, rcode := NXDomain\<rparr>\<rparr>"

definition zero_ip_reply :: "dns_packet \<Rightarrow> dns_question \<Rightarrow> dns_packet" where
  "zero_ip_reply p q = p
     \<lparr>header := (counted_header p)\<lparr>is_response := True, rcode := NoError,
        ancount := word_of_nat (length (answers p) + 1)\<rparr>,
      answers := answers p @ [\<lparr>rr_name = q_name q, rr_type = QT_A, rr_class = QC_IN, rr_ttl = 10,
        rr_data = RD_A (Ipv4 0 0 0 0)\<rparr>]\<rparr>"

lemma blocked_nxdomain_bytes:
  assumes "byte_io (pf_buf P)" "wire_packet (pf_unicode P) p" "questions p = q # qs"
    and "is_blocked (pf_unicode P) (svc_filter st) (q_name q)" "svc_block_mode st = lit ''nxdomain''"
  shows "\<exists>reply. resolve_dns_query P (to_bytes (pf_buf P) p) st w = (Ok (Some reply), st, w)
    \<and> packet_parse (pf_buf P) (pf_unicode P) reply = Ok (nxdomain_reply p)"
proof -
  let ?p = "p\<lparr>header := counted_header p\<rparr>"
  have 1: "packet_parse (pf_buf P) (pf_unicode P) (to_bytes (pf_buf P) p) = Ok ?p"
    by (rule byte_io.packet_parse_to_bytes [OF assms(1,2)])
  have b: "build_blocked_response ?p True = nxdomain_reply p"
    by (simp add: build_blocked_response_def nxdomain_reply_def Let_def)
  have "packet_parse (pf_buf P) (pf_unicode P) (to_bytes (pf_buf P) (nxdomain_reply p)) = Ok (nxdomain_reply p)"
    using byte_io.packet_parse_to_bytes [OF assms(1), of "pf_unicode P" "nxdomain_reply p"] assms(2)
    by (simp add: nxdomain_reply_def counted_header_def)
  moreover have "questions ?p = q # qs" using assms(3) by simp
  ultimately show ?thesis
    using blocked_front [OF 1 _ assms(4), of qs w] b assms(5) by (simp add: blocked_reply_def)
qed

lemma blocked_zero_ip_bytes:
  assumes "byte_io (pf_buf P)" "wire_packet (pf_unicode P) p" "questions p = q # qs" "q_type q = QT_A"
    and "length (answers p) < 65535"
    and "is_blocked (pf_unicode P) (svc_filter st) (q_name q)" "svc_block_mode st \<noteq> lit ''nxdomain''"
  shows "\<exists>reply. resolve_dns_query P (to_bytes (pf_buf P) p) st w = (Ok (Some reply), st, w)
    \<and> packet_parse (pf_buf P) (pf_unicode P) reply = Ok (zero_ip_reply p q)"
proof -
  let ?p = "p\<lparr>header := counted_header p\<rparr>"
  let ?r = "(zero_ip_reply p q)\<lparr>header := (counted_header p)\<lparr>is_response := True, rcode := NoError\<rparr>\<rparr>"
  have 1: "packet_parse (pf_buf P) (pf_unicode P) (to_bytes (pf_buf P) p) = Ok ?p"
    by (rule byte_io.packet_parse_to_bytes [OF assms(1,2)])
  have b: "build_blocked_response ?p False = ?r"
    using assms(3,4) by (simp add: build_blocked_response_def zero_ip_reply_def Let_def)
  have "wire_packet (pf_unicode P) ?r"
    using assms(2,3,5)
    by (simp add: wire_packet_def zero_ip_reply_def wire_record_def wire_question_def
        canonical_type_def canonical_class_def qtype_from_u16_def qclass_from_u16_def)
  then have "packet_parse (pf_buf P) (pf_unicode P) (to_bytes (pf_buf P) ?r) = Ok (zero_ip_reply p q)"
    using byte_io.packet_parse_to_bytes [OF assms(1), of "pf_unicode P" ?r]
    by (simp add: zero_ip_reply_def counted_header_def)
  moreover have "questions ?p = q # qs" using assms(3) by simp
  ultimately show ?thesis
    using blocked_front [OF 1 _ assms(6), of qs w] b assms(7) by (simp add: blocked_reply_def)
qed

text \<open>Writing only appends, so a reply starts with the identifier of its packet.\<close>

lemma to_bytes_id:
  assumes "byte_io B"
  shows "take 2 (to_bytes B p) = bytes16 (id_of (header p))"
proof -
  note put = byte_io.put [OF assms]
  have rd: "\<exists>x. rdata_write B d out = out @ x" for d out
    by (cases d) (simp_all add: put put_sized_def)
  have rec: "\<exists>x. record_write B r out = out @ x" for r out
    using rd [of "rr_data r"] by (simp add: record_write_def put byte_io.write_domain_name_wire [OF assms])
       (metis append.assoc)
  have recs: "\<exists>x. fold (record_write B) rs out = out @ x" for rs out
  proof (induction rs arbitrary: out)
    case (Cons r rs)
    then show ?case using rec [of r out] by (metis append.assoc fold_simps(2))
  qed simp
  have "\<exists>x. to_bytes B p = header_write B (counted_header p) [] @ x"
    unfolding to_bytes_def Let_def byte_io.fold_question_write [OF assms]
    by (metis append.assoc recs)
  then show ?thesis
    by (auto simp: byte_io.header_write_bytes [OF assms] counted_header_def)
qed

context service_libs
begin

text \<open>Over a stream that takes every write, the connection goes on and has sent the reply.\<close>

lemma tcp_forward_again:
  assumes "records_output S (pf_net P) sent" "inv st" "asks P query packet question"
    "\<not> is_blocked (pf_unicode P) (svc_filter st) (q_name question)"
    and u: "forward_raw (pf_net P) (svc_forwarder st) query w = (u, w1)"
    and p: "\<And>resp. u = Inr resp \<Longrightarrow> parse_bytes resp \<noteq> Panic"
  shows "fst (tcp_forward P S query packet question st w) = Ok Again"
proof (cases u)
  case (Inr resp)
  obtain v w2 where v: "send_framed S resp w1 = (v, w2)" by fastforce
  then have "v = Written" using send_framed_sent(1) [OF assms(1), of resp w1] by simp
  obtain x st2 w3 where x: "store_response P question resp st w2 = (x, st2, w3)"
    by (metis prod.collapse)
  then have "x = Ok ()"
    using store_response_facts(3) [OF assms(2-4) forward_raw_answered [OF u [unfolded Inr]] x] p [OF Inr] by simp
  then show ?thesis using u Inr v \<open>v = Written\<close> x
    by (simp add: tcp_forward_def try_write_def records_output_drop [OF assms(1)])
qed (use u in \<open>simp add: tcp_forward_def Let_def records_output_drop [OF assms(1)]\<close>)

lemma tcp_answer_resolves:
  assumes r: "records_output S (pf_net P) sent" and i: "inv st"
    and q: "resolve_dns_query P query st w = (Ok reply, st1, w1)"
    and t: "tcp_answer P S query st w = (x, st2, w2)"
  shows "x = Ok Again \<and> (case reply of
      Some bytes \<Rightarrow> sent w2 = sent w @ frame bytes
    | None \<Rightarrow> sent w2 = sent w \<or>
        (\<exists>packet. parse_bytes query = Ok packet \<and> sent w2 = sent w @ frame (servfail_reply (pf_buf P) packet)))"
proof -
  obtain f sta wa where f: "resolve_front P query st w = (f, sta, wa)" by (metis prod.collapse)
  note ff = resolve_front_facts [OF i f]
  have wa: "sent wa = sent w"
    using resolve_front_world [OF records_output_keeps [OF r], where w = w and query = query and st = st] f by simp
  obtain y where y: "f = Ok y" using q f by (cases f) (auto simp: resolve_dns_query_def)
  show ?thesis
  proof (cases y)
    case (Reply o1)
    then have "o1 = reply" using q f y by (simp add: resolve_dns_query_def)
    moreover obtain v w3 where "send_framed S (the reply) wa = (v, w3)" by fastforce
    ultimately show ?thesis
      using t f y Reply wa send_framed_sent [OF r, of "the reply" wa]
      by (cases reply) (auto simp: tcp_answer_front try_write_def)
  next
    case (CacheHit bytes)
    moreover obtain v w3 where "send_framed S bytes wa = (v, w3)" by fastforce
    ultimately show ?thesis
      using t q f y wa send_framed_sent [OF r, of bytes wa]
      by (auto simp: tcp_answer_front resolve_dns_query_def try_write_def)
  next
    case (NeedUpstream packet question)
    then have ask: "asks P query packet question"
      "\<not> is_blocked (pf_unicode P) (svc_filter sta) (q_name question)"
      using ff(2,6) y by (simp_all add: same_settings_def)
    obtain u wb where u: "forward_raw (pf_net P) (svc_forwarder sta) query wa = (u, wb)" by fastforce
    have tf: "tcp_forward P S query packet question sta wa = (x, st2, w2)"
      using t f y NeedUpstream by (simp add: tcp_answer_front)
    have s: "sent w2 = sent w @ frame (case u of Inr resp \<Rightarrow> resp | Inl e \<Rightarrow> servfail_reply (pf_buf P) packet)"
      using tcp_forward_sent [OF r u, of packet question] tf wa by simp
    show ?thesis
    proof (cases u)
      case (Inr resp)
      obtain z stz wz where z: "store_response P question resp sta wb = (z, stz, wz)"
        by (metis prod.collapse)
      have "parse_bytes resp \<noteq> Panic" "reply = Some resp"
        using q f y NeedUpstream u Inr z store_response_facts(3) [OF ff(1) ask forward_raw_answered [OF u [unfolded Inr]] z]
        by (auto simp: resolve_dns_query_def split: if_splits)
      then show ?thesis
        using tcp_forward_again [OF r ff(1) ask u] tf s Inr by simp
    next
      case (Inl e)
      then have "reply = None"
        using q f y NeedUpstream u by (simp add: resolve_dns_query_def)
      moreover have "x = Ok Again" using tcp_forward_again [OF r ff(1) ask u] tf Inl by simp
      ultimately show ?thesis using s Inl ask(1) by (auto simp: asks_def)
    qed
  qed
qed

text \<open>An answer of an upstream is in the cache when the query is done.\<close>

lemma upstream_answer_cached:
  assumes i: "inv st" and f: "resolve_front P query st w = (Ok (NeedUpstream packet question), sta, wa)"
    and q: "resolve_dns_query P query st w = (Ok (Some resp), st', w')" and p: "parse_bytes resp = Ok p"
  shows "\<exists>t. view st' (cache_key (pf_unicode P) (q_name question) (q_type question)) =
    Some (new_entry (min_ttl (svc_cache sta)) (max_ttl (svc_cache sta)) t (q_type question) p)"
proof -
  note ff = resolve_front_facts [OF i f]
  obtain u wb where u: "forward_raw (pf_net P) (svc_forwarder sta) query wa = (u, wb)" by fastforce
  obtain x st2 w2 where x: "store_response P question resp sta wb = (x, st2, w2)"
    by (metis prod.collapse)
  have "u = Inr resp" "st' = st2" "x = Ok ()"
    using q f u x
    by (cases u; auto simp: resolve_dns_query_def split: prod.splits outcome.splits)+
  moreover have c: "cache_inv entries valid (svc_cache sta)" using ff(1) by (simp add: svc_inv_def)
  moreover obtain t wt where t: "net_now (pf_net P) wb = (t, wt)" by fastforce
  ultimately show ?thesis
    using x p resp.cache_insert_map(1) [OF c, of "pf_unicode P" t "q_name question" "q_type question" p]
    by (auto simp: store_response_def resp.cache_insert_eq [OF c])
qed

end

end
