(* ===== verification/RuleSyntax.thy ===== *)
theory RuleSyntax
  imports FilterEngine
begin

text \<open>
  The rule syntaxes of the list files (\<open>insert_rule\<close> in \<open>filter/trie.rs\<close>): for host names as the
  lists spell them, each documented syntax stands for the same name.
\<close>

declare lit_simps [simp]

text \<open>Host names as the lists spell them: letters, digits, hyphen, underscore and dots.\<close>

definition host_char :: "rchar \<Rightarrow> bool" where
  "host_char c \<longleftrightarrow> 48 \<le> c \<and> c \<le> 57 \<or> 65 \<le> c \<and> c \<le> 90 \<or> 97 \<le> c \<and> c \<le> 122
     \<or> c = 45 \<or> c = 46 \<or> c = 95"

definition plain_host :: "rstr \<Rightarrow> bool" where
  "plain_host h \<longleftrightarrow> list_all host_char h \<and> trim_end_char 46 h \<noteq> []"

lemma host_char_props:
  "host_char c \<Longrightarrow> c < 128" "host_char c \<Longrightarrow> \<not> is_ws c" "host_char c \<Longrightarrow> host_char (ascii_lower c)"
  "host_char c \<Longrightarrow> c \<noteq> 124 \<and> c \<noteq> 36 \<and> c \<noteq> 94 \<and> c \<noteq> 42 \<and> c \<noteq> 35 \<and> c \<noteq> 33 \<and> c \<noteq> 47 \<and> c \<noteq> 61 \<and> c \<noteq> 32"
  by (auto simp: host_char_def is_ws_def ascii_lower_def)

lemma plain_host_hostname: "plain_host h \<Longrightarrow> hostname h"
  by (auto simp: plain_host_def hostname_def ascii_def list_all_iff host_char_props)

definition host_name :: "rstr \<Rightarrow> rstr" where
  "host_name h = map ascii_lower (trim_end_char 46 h)"

lemma plain_host_nonempty: "plain_host h \<Longrightarrow> h \<noteq> []"
  by (auto simp: plain_host_def trim_end_char_def)

lemma host_name_chars:
  assumes "plain_host h"
  shows "host_name h \<noteq> []" "list_all host_char (host_name h)"
  using assms trim_end_char_sub [of host_char h 46]
  by (auto simp: plain_host_def host_name_def list_all_iff host_char_props(3))

lemma trim_id: "s \<noteq> [] \<Longrightarrow> \<not> is_ws (hd s) \<Longrightarrow> \<not> is_ws (last s) \<Longrightarrow> trim s = s"
proof -
  assume s: "s \<noteq> []" "\<not> is_ws (hd s)" "\<not> is_ws (last s)"
  have "dropWhile is_ws s = s" using s(1,2) by (cases s) auto
  moreover have "dropWhile is_ws (rev s) = rev s" using s(1,3) by (cases s rule: rev_cases) auto
  ultimately show "trim s = s" by (simp add: trim_def)
qed

lemma split_ws_append: "list_all (\<lambda>c. \<not> is_ws c) l \<Longrightarrow> is_ws c \<Longrightarrow> split_ws (l @ c # s) = l # split_ws s"
  by (induction l) auto

lemma split_ws_single: "list_all (\<lambda>c. \<not> is_ws c) l \<Longrightarrow> split_ws l = [l]"
  by (induction l) auto

text \<open>A rule whose text is a host name stands for that host name.\<close>

lemma rule_name_host:
  assumes h: "plain_host h" and t: "trim raw = t" "rule_text t = h" "\<not> comment_or_empty t"
  shows "rule_name U raw = Some (host_name h)"
proof -
  have n: "trie_normalize U h = host_name h"
    by (simp add: normalize_hostname [OF plain_host_hostname [OF h]] host_name_def)
  have c: "host_char x" if "x \<in> set (host_name h)" for x
    using host_name_chars(2) [OF h] that by (auto simp: list_all_iff)
  have "hd (host_name h) \<noteq> 47" "32 \<notin> set (host_name h)" "61 \<notin> set (host_name h)"
    using c [OF hd_in_set [OF host_name_chars(1) [OF h]]] c host_char_props(4) by blast+
  then show ?thesis
    using t host_name_chars(1) [OF h] by (simp add: rule_name_def n Let_def)
qed

lemma starts_with_append [simp]: "starts_with p (p @ s)"
  by (simp add: starts_with_def)

lemma trim_start_str_once: "p \<noteq> [] \<Longrightarrow> \<not> starts_with p s \<Longrightarrow> trim_start_str p (p @ s) = s"
  by (subst trim_start_str.simps) (simp add: trim_start_str.simps [of p s])

lemma host_props:
  assumes "plain_host h"
  shows "list_all (\<lambda>c. \<not> is_ws c) h" "h \<noteq> []" "host_char (hd h)" "host_char (last h)"
    "124 \<notin> set h" "36 \<notin> set h" "94 \<notin> set h" "42 \<notin> set h"
proof -
  have c: "host_char x" if "x \<in> set h" for x
    using assms that by (auto simp: plain_host_def list_all_iff)
  show "h \<noteq> []" using assms by (rule plain_host_nonempty)
  then show "host_char (hd h)" "host_char (last h)" using c by auto
  show "list_all (\<lambda>c. \<not> is_ws c) h" using c host_char_props(2) by (auto simp: list_all_iff)
  show "124 \<notin> set h" "36 \<notin> set h" "94 \<notin> set h" "42 \<notin> set h" using c host_char_props(4) by blast+
qed

lemma host_not_ws: "plain_host h \<Longrightarrow> \<not> is_ws (hd h)" "plain_host h \<Longrightarrow> \<not> is_ws (last h)"
  using host_props(3,4) host_char_props(2) by blast+

lemma starts_with_hd: "starts_with (c # p) s \<Longrightarrow> s \<noteq> [] \<and> hd s = c"
  by (cases s) (simp_all add: starts_with_def)

lemma comment_hd: "comment_or_empty s \<longleftrightarrow> s = [] \<or> hd s = 35 \<or> hd s = 33"
  by (cases s) (auto simp: comment_or_empty_def starts_with_def lit_def)

text \<open>\<open>||h^\<close> and \<open>||h^$options\<close>\<close>

lemma rule_adblock:
  assumes h: "plain_host h" and opts: "opts = [] \<or> (\<exists>x. opts = 36 # x \<and> \<not> is_ws (last opts))"
  shows "rule_name U (lit ''||'' @ h @ lit ''^'' @ opts) = Some (host_name h)"
proof (rule rule_name_host [OF h])
  let ?t = "lit ''||'' @ h @ lit ''^'' @ opts"
  have "\<not> is_ws (last ?t)" using opts by (auto simp: is_ws_def)
  then show "trim ?t = ?t" by (intro trim_id) (simp_all add: is_ws_def)
  show "\<not> comment_or_empty ?t" by (simp add: comment_hd)
  have "hd (h @ 94 # opts) \<noteq> 124" using host_props(2,5) [OF h] by (cases h) auto
  then have "\<not> starts_with (lit ''||'') (h @ 94 # opts)"
    using starts_with_hd [of 124 "[124]" "h @ 94 # opts"] by auto
  then have s: "trim_start_str (lit ''||'') ?t = h @ 94 # opts"
    using trim_start_str_once [of "lit ''||''" "h @ 94 # opts"] by simp
  have d: "36 \<notin> set (h @ [94])" using host_props(6) [OF h] by simp
  have "\<exists>ps. split_char 36 (h @ 94 # opts) = (h @ [94]) # ps"
    using opts split_char_single [OF d] split_char_append [OF d] by auto
  moreover have "trim_end_char 94 (h @ [94]) = h"
  proof -
    have "last h \<noteq> 94" using last_in_set [OF host_props(2) [OF h]] host_props(7) [OF h] by metis
    then show ?thesis using trim_end_char_id [of h 94] by (simp add: trim_end_char_def)
  qed
  ultimately show "rule_text ?t = h"
    using s starts_with_append [of "lit ''||''"] by (auto simp: rule_text_def)
qed

text \<open>Hosts lines: \<open>0.0.0.0 h\<close> and \<open>127.0.0.1 h\<close>\<close>

lemma rule_hosts:
  assumes h: "plain_host h" and ip: "ip \<in> {lit ''0.0.0.0'', lit ''127.0.0.1''}"
  shows "rule_name U (ip @ lit '' '' @ h) = Some (host_name h)"
proof (rule rule_name_host [OF h])
  let ?t = "ip @ lit '' '' @ h"
  have "ip \<noteq> []" "\<not> is_ws (hd ip)" "hd ip \<noteq> 124" "hd ip \<noteq> 35" "hd ip \<noteq> 33" "list_all (\<lambda>c. \<not> is_ws c) ip"
    using ip by (auto simp: is_ws_def)
  note ip' = this
  show "trim ?t = ?t" using ip' host_props(2) [OF h] host_not_ws [OF h] by (intro trim_id) simp_all
  show "\<not> comment_or_empty ?t" using ip' by (simp add: comment_hd)
  have "split_ws ?t = [ip, h]"
    using split_ws_append [OF ip'(6), of 32 h] split_ws_single [OF host_props(1) [OF h]]
    by (simp add: is_ws_def)
  then have "iter_nth (split_whitespace ?t) 1 = Some h"
    using ip' host_props(2) [OF h] by (simp add: split_whitespace_def iter_nth_def)
  moreover have "\<not> starts_with (lit ''||'') ?t" using starts_with_hd [of 124 "[124]" ?t] ip' by auto
  moreover have "starts_with (lit ''0.0.0.0 '') ?t \<or> starts_with (lit ''127.0.0.1 '') ?t"
    using ip by (auto simp: starts_with_def)
  ultimately show "rule_text ?t = h" by (simp add: rule_text_def)
qed

text \<open>\<open>*.h\<close> and \<open>h\<close> alone\<close>

lemma rule_wildcard:
  assumes h: "plain_host h"
  shows "rule_name U (lit ''*.'' @ h) = Some (host_name h)"
proof (rule rule_name_host [OF h])
  let ?t = "lit ''*.'' @ h"
  show "trim ?t = ?t" using host_props(2) [OF h] host_not_ws [OF h]
    by (intro trim_id) (simp_all add: is_ws_def)
  show "\<not> comment_or_empty ?t" by (simp add: comment_hd)
  have "\<not> starts_with (lit ''*.'') h"
    using starts_with_hd [of 42 "[46]" h] hd_in_set [OF host_props(2) [OF h]] host_props(8) [OF h]
    by auto
  then have "trim_start_str (lit ''*.'') ?t = h" by (intro trim_start_str_once) simp_all
  then show "rule_text ?t = h" by (simp add: rule_text_def starts_with_def)
qed

lemma rule_plain:
  assumes h: "plain_host h"
  shows "rule_name U h = Some (host_name h)"
proof (rule rule_name_host [OF h])
  have c: "host_char (hd h)" and ws: "32 \<notin> set h"
    using host_props(1,3) [OF h] by (auto simp: list_all_iff is_ws_def)
  show "trim h = h" using host_props(2) [OF h] host_not_ws [OF h] by (intro trim_id)
  show "\<not> comment_or_empty h" using c host_props(2) [OF h] host_char_props(4) by (auto simp: comment_hd)
  have no: "\<not> starts_with p h" if "32 \<in> set p" for p
    using that ws in_set_takeD by (metis starts_with_def)
  have "\<not> starts_with (lit ''||'') h" "\<not> starts_with (lit ''*.'') h"
    using starts_with_hd [of 124 "[124]" h] starts_with_hd [of 42 "[46]" h] c host_char_props(4) by auto
  then show "rule_text h = h" using no by (simp add: rule_text_def)
qed

section \<open>Properties\<close>

text \<open>C32: the syntaxes of a rule agree. For a host name \<open>h\<close>, the Adblock rules \<open>||h^\<close> and
  \<open>||h^$third-party\<close>, the hosts lines of both addresses, the wildcard \<open>*.h\<close> and \<open>h\<close> alone all stand
  for \<open>h\<close> in lower case without trailing dots.\<close>

theorem rule_syntaxes:
  assumes "plain_host h"
  shows "map (rule_name U)
      [lit ''||'' @ h @ lit ''^'', lit ''||'' @ h @ lit ''^$third-party'',
       lit ''0.0.0.0 '' @ h, lit ''127.0.0.1 '' @ h, lit ''*.'' @ h, h] =
    replicate 6 (Some (map ascii_lower (trim_end_char 46 h)))"
  using rule_adblock [OF assms, of "[]" U] rule_adblock [OF assms, of "lit ''$third-party''" U]
    rule_hosts [OF assms, of "lit ''0.0.0.0''" U] rule_hosts [OF assms, of "lit ''127.0.0.1''" U]
    rule_wildcard [OF assms, of U] rule_plain [OF assms, of U]
  by (simp add: host_name_def is_ws_def eval_nat_numeral)

theorem rule_syntaxes_witness:
  "\<forall>U. rule_name U (lit ''0.0.0.0 Ads.Example'') = Some (lit ''ads.example'')"
proof
  fix U
  have "plain_host (lit ''Ads.Example'')"
    by (simp add: plain_host_def host_char_def trim_end_char_def)
  from rule_syntaxes [OF this, of U]
  show "rule_name U (lit ''0.0.0.0 Ads.Example'') = Some (lit ''ads.example'')"
    by (simp add: trim_end_char_def ascii_lower_def eval_nat_numeral)
qed

text \<open>A hosts line whose fields are separated by a tab is not recognised as one: it is taken as a
  name of its own, tab included, and the host is not blocked by it.\<close>

lemma tab_hosts_line:
  "rule_name U (lit ''0.0.0.0'' @ [9] @ lit ''ads.io'') = Some (lit ''0.0.0.0'' @ [9] @ lit ''ads.io'')"
  by (simp add: rule_name_def rule_text_def trie_normalize_def trim_def is_ws_def starts_with_def
      comment_or_empty_def trim_end_char_def to_lowercase_def char_lower_def ascii_lower_def Let_def)

end
