(* ===== verification/Startup.thy ===== *)
theory Startup
  imports Server RuleSyntax
begin

text \<open>
  The rest of \<open>main.rs\<close>: opening the listeners in \<open>run_server\<close>, building the TLS acceptor from
  the certificate and key files, the exit code of \<open>ValidateConfig\<close> and the rules and queries of
  \<open>Benchmark\<close>. Opening sockets, reading PEM files and the acceptor itself belong to the runtime
  and to rustls, and are parameters.
\<close>

section \<open>The TLS acceptor\<close>

datatype 'k pem_item = Pkcs8Key 'k | Pkcs1Key 'k | OtherItem

datatype 'k private_key = Pkcs8 'k | Pkcs1 'k

text \<open>
  \<open>pem_items\<close> lists what \<open>rustls_pemfile::read_one\<close> returns for a file until it returns
  \<open>Ok(None)\<close>; an \<open>Inl\<close> in it is a read that failed.
\<close>

record ('f, 'cert, 'k, 'a) tls_api =
  tls_open :: "rstr \<Rightarrow> string + 'f"
  tls_certs :: "'f \<Rightarrow> string + 'cert list"
  tls_pem_items :: "'f \<Rightarrow> (string + 'k pem_item) list"
  tls_single_cert :: "'cert list \<Rightarrow> 'k private_key \<Rightarrow> string + 'a"

text \<open>The \<open>loop\<close> over the items of the key file, with \<open>key_items\<close>.\<close>

fun collect_keys :: "(string + 'k pem_item) list \<Rightarrow> 'k private_key list \<Rightarrow> string + 'k private_key list" where
  "collect_keys [] key_items = Inr key_items"
| "collect_keys (Inr (Pkcs8Key k) # items) key_items = collect_keys items (key_items @ [Pkcs8 k])"
| "collect_keys (Inr (Pkcs1Key k) # items) key_items = collect_keys items (key_items @ [Pkcs1 k])"
| "collect_keys (Inr OtherItem # items) key_items = collect_keys items key_items"
| "collect_keys (Inl e # items) key_items = Inl (''key parse error: '' @ e)"

definition build_tls_acceptor :: "('f, 'cert, 'k, 'a) tls_api \<Rightarrow> server_config \<Rightarrow> string + 'a option" where
  "build_tls_acceptor A config =
     (case tls_cert_path config of None \<Rightarrow> Inl ''TLS cert path missing'' | Some cert_path \<Rightarrow>
     (case tls_key_path config of None \<Rightarrow> Inl ''TLS key path missing'' | Some key_path \<Rightarrow>
     (case tls_open A cert_path of Inl e \<Rightarrow> Inl e | Inr cert_file \<Rightarrow>
     (case tls_open A key_path of Inl e \<Rightarrow> Inl e | Inr key_file \<Rightarrow>
     (case tls_certs A cert_file of Inl e \<Rightarrow> Inl (''cert parse error: '' @ e) | Inr certs \<Rightarrow>
     (case collect_keys (tls_pem_items A key_file) [] of Inl e \<Rightarrow> Inl e | Inr keys \<Rightarrow>
     (case keys of [] \<Rightarrow> Inl ''no private key found'' | key # _ \<Rightarrow>
     (case tls_single_cert A certs key of Inl e \<Rightarrow> Inl e | Inr acceptor \<Rightarrow> Inr (Some acceptor)))))))))"

section \<open>The listeners\<close>

datatype listener = UdpOn socket_addr | TcpOn socket_addr | TlsOn socket_addr

definition tls_bind_addr :: "server_config \<Rightarrow> socket_addr" where
  "tls_bind_addr config =
     (case bind_addr config of
        SockV4 ip port \<Rightarrow> SockV4 ip (tls_port config)
      | SockV6 ip scope port \<Rightarrow> SockV6 ip 0 (tls_port config))"

definition try_bind ::
  "(listener \<Rightarrow> 'w \<Rightarrow> (string + unit) \<times> 'w) \<Rightarrow> listener \<Rightarrow> listener list \<Rightarrow> 'w
     \<Rightarrow> (string + listener list) \<times> 'w" where
  "try_bind bind l opened w =
     (case bind l w of (Inl e, w) \<Rightarrow> (Inl e, w) | (Inr _, w) \<Rightarrow> (Inr (opened @ [l]), w))"

text \<open>
  From \<open>UdpSocket::bind\<close> on: UDP, then TCP if it is enabled, then the acceptor and its
  listener if TLS is; every \<open>?\<close> ends the start-up. The result is what the server listens on.
\<close>

definition open_listeners ::
  "(listener \<Rightarrow> 'w \<Rightarrow> (string + unit) \<times> 'w) \<Rightarrow> ('f, 'cert, 'k, 'a) tls_api \<Rightarrow> server_config \<Rightarrow> 'w
     \<Rightarrow> (string + listener list) \<times> 'w" where
  "open_listeners bind A config w =
     (case try_bind bind (UdpOn (bind_addr config)) [] w of
        (Inl e, w) \<Rightarrow> (Inl e, w)
      | (Inr opened, w) \<Rightarrow>
     (case (if tcp_enabled config then try_bind bind (TcpOn (bind_addr config)) opened w
            else (Inr opened, w)) of
        (Inl e, w) \<Rightarrow> (Inl e, w)
      | (Inr opened, w) \<Rightarrow>
     (case (if tls_enabled config then build_tls_acceptor A config else Inr None) of
        Inl e \<Rightarrow> (Inl e, w)
      | Inr None \<Rightarrow> (Inr opened, w)
      | Inr (Some acceptor) \<Rightarrow> try_bind bind (TlsOn (tls_bind_addr config)) opened w)))"

section \<open>Commands\<close>

definition validate_config_exit ::
  "unicode \<Rightarrow> environment \<Rightarrow> toml_api \<Rightarrow> (rstr \<Rightarrow> string + rstr) \<Rightarrow> rstr \<Rightarrow> nat" where
  "validate_config_exit U getenv T read_file config =
     (case load_from_file U getenv T read_file config of Inr cfg \<Rightarrow> 0 | Inl e \<Rightarrow> 1)"

definition benchmark_rule :: "nat \<Rightarrow> rstr" where
  "benchmark_rule i = lit ''||bad-domain-'' @ lit (decimal i) @ lit ''.com^''"

definition benchmark_engine :: "unicode \<Rightarrow> nat \<Rightarrow> filter_engine" where
  "benchmark_engine U n = fold (\<lambda>i. load_blocklist_rule U (benchmark_rule i)) [0..<n] engine_new"

definition benchmark_query :: "nat \<Rightarrow> rstr" where
  "benchmark_query i =
     (if i mod 2 = 0 then lit ''sub.bad-domain-5000.com'' else lit ''clean-domain.org'')"

section \<open>Lemmas\<close>

text \<open>The first key of a kind the code knows is the one that is used.\<close>

fun usable_key :: "string + 'k pem_item \<Rightarrow> 'k private_key option" where
  "usable_key (Inr (Pkcs8Key k)) = Some (Pkcs8 k)"
| "usable_key (Inr (Pkcs1Key k)) = Some (Pkcs1 k)"
| "usable_key _ = None"

lemma collect_keys_ok:
  "collect_keys items acc = Inr keys \<longleftrightarrow>
     (\<forall>x \<in> set items. \<not> isl x) \<and> keys = acc @ List.map_filter usable_key items"
  by (induction items acc rule: collect_keys.induct) (auto simp: map_filter_simps)

lemma collect_keys_filter:
  "collect_keys items [] = Inr keys \<longleftrightarrow>
     filter isl items = [] \<and> keys = List.map_filter usable_key items"
  by (simp add: collect_keys_ok filter_empty_conv)

lemma collect_keys_error: "collect_keys items acc = Inl e \<Longrightarrow> filter isl items \<noteq> []"
  by (induction items acc rule: collect_keys.induct) auto

text \<open>A certificate and a key file with a key of a kind the code passes over, and one it takes.\<close>

definition sample_tls :: "(unit, nat, nat, nat) tls_api" where
  "sample_tls = \<lparr>tls_open = (\<lambda>p. Inr ()), tls_certs = (\<lambda>f. Inr [1]),
     tls_pem_items = (\<lambda>f. [Inr OtherItem, Inr (Pkcs8Key 7), Inr (Pkcs1Key 8)]),
     tls_single_cert = (\<lambda>certs key. Inr 1)\<rparr>"

lemma build_tls_acceptor_some: "build_tls_acceptor A c \<noteq> Inr None"
  by (auto simp: build_tls_acceptor_def split: option.splits sum.splits list.splits)

lemma open_listeners_ok:
  assumes "open_listeners bind A c w = (Inr ls, w')"
  shows "ls = UdpOn (bind_addr c) # (if tcp_enabled c then [TcpOn (bind_addr c)] else [])
    @ (if tls_enabled c then [TlsOn (tls_bind_addr c)] else [])"
  using assms build_tls_acceptor_some [of A c]
  by (auto simp: open_listeners_def try_bind_def
      split: prod.splits sum.splits if_splits option.splits)

text \<open>The benchmark: its rules and what its queries meet.\<close>

definition benchmark_host :: "nat \<Rightarrow> rstr" where
  "benchmark_host i = lit ''bad-domain-'' @ lit (decimal i) @ lit ''.com''"

lemma decimal_digits: "list_all (\<lambda>c. 48 \<le> c \<and> c \<le> 57) (lit (decimal n))"
proof -
  have "of_char (char_of (48 + k mod 10)) = 48 + k mod 10" for k :: nat
    by (simp add: of_char_of)
  moreover have "k mod 10 \<le> 9" for k :: nat by (simp add: less_Suc_eq_le [symmetric])
  ultimately show ?thesis by (auto simp: decimal_def lit_def list_all_iff)
qed

lemma benchmark_host_plain: "plain_host (benchmark_host i)"
proof -
  have "list_all host_char (lit (decimal i))"
    using decimal_digits [of i] by (auto simp: list_all_iff host_char_def)
  then have "list_all host_char (benchmark_host i)"
    by (auto simp: benchmark_host_def list_all_iff host_char_def)
  then show ?thesis by (simp add: plain_host_def benchmark_host_def trim_end_char_id)
qed

lemma benchmark_rule_name: "rule_name U (benchmark_rule i) = Some (host_name (benchmark_host i))"
  using rule_adblock [OF benchmark_host_plain, of "[]" U i]
  by (simp add: benchmark_rule_def benchmark_host_def)

lemma benchmark_names:
  "engine_inv (benchmark_engine U n) \<and> allow_names (benchmark_engine U n) = {}
     \<and> block_names (benchmark_engine U n) = (\<lambda>i. host_name (benchmark_host i)) ` {..<n}"
proof (induction n)
  case 0
  then show ?case
    using engine_inv_new
    by (simp add: benchmark_engine_def allow_names_def block_names_def engine_new_def trie_new_def)
next
  case (Suc n)
  then show ?case
    using load_blocklist_rule_names [of "benchmark_engine U n" U "benchmark_rule n"]
    by (auto simp: benchmark_engine_def benchmark_rule_name lessThan_Suc)
qed

lemma benchmark_host_last: "last (host_name (benchmark_host i)) = 109"
proof -
  have "trim_end_char 46 (benchmark_host i) = benchmark_host i"
    by (intro trim_end_char_id) (simp add: benchmark_host_def)
  then show ?thesis by (simp add: host_name_def benchmark_host_def ascii_lower_def last_map)
qed

lemma benchmark_verdicts:
  assumes "5000 < n"
  shows "evaluate U (benchmark_engine U n) (benchmark_query i) =
    (if i mod 2 = 0 then Blocked (lit ''sub.bad-domain-5000.com'') else Allowed)"
proof -
  note b = benchmark_names [of U n]
  have sub: "hostname (lit ''sub.bad-domain-5000.com'')" "hostname (lit ''clean-domain.org'')"
    by (simp_all add: hostname_def ascii_def is_ws_def)
  then have nrm: "trie_normalize U (lit ''sub.bad-domain-5000.com'') = lit ''sub.bad-domain-5000.com''"
    "trie_normalize U (lit ''clean-domain.org'') = lit ''clean-domain.org''"
    by (simp_all add: normalize_hostname trim_end_char_def ascii_lower_def)
  have "host_name (benchmark_host 5000) = lit ''bad-domain-5000.com''"
    by (simp add: host_name_def benchmark_host_def decimal_def upt_rec trim_end_char_def ascii_lower_def)
  moreover have "under (lit ''sub.bad-domain-5000.com'') (lit ''bad-domain-5000.com'')"
    unfolding under_def by (intro disjI2 exI [of _ "lit ''sub''"]) simp
  ultimately have hit: "covers (block_names (benchmark_engine U n)) (lit ''sub.bad-domain-5000.com'')"
    using assms b unfolding covers_def by (metis image_eqI lessThan_iff)
  have "\<not> under (lit ''clean-domain.org'') p" if "last p = 109" "p \<noteq> []" for p
  proof
    assume "under (lit ''clean-domain.org'') p"
    then have "last (lit ''clean-domain.org'') = last p"
      using that(2) unfolding under_def by (metis last_appendR append_is_Nil_conv)
    with that(1) show False by simp
  qed
  then have miss: "\<not> covers (block_names (benchmark_engine U n)) (lit ''clean-domain.org'')"
    using b benchmark_host_last host_name_chars(1) [OF benchmark_host_plain]
    by (auto simp: covers_def)
  show ?thesis
    using b hit miss
    by (simp add: evaluate_covers benchmark_query_def nrm Let_def covers_def [of "{}"] del: lit_simps)
qed

text \<open>The engine of the command \<open>TestDomain\<close>.\<close>

lemma test_domain_names:
  "\<exists>e. engine_inv e \<and> test_domain U = evaluate U e
    \<and> block_names e = {lit ''doubleclick.net'', lit ''googlesyndication.com''}
    \<and> allow_names e = {lit ''allowed.doubleclick.net''}"
proof -
  have hosts: "plain_host (lit ''doubleclick.net'')" "plain_host (lit ''googlesyndication.com'')"
    "plain_host (lit ''allowed.doubleclick.net'')"
    by (simp_all add: plain_host_def host_char_def trim_end_char_def)
  have self: "host_name (lit ''doubleclick.net'') = lit ''doubleclick.net''"
    "host_name (lit ''googlesyndication.com'') = lit ''googlesyndication.com''"
    "host_name (lit ''allowed.doubleclick.net'') = lit ''allowed.doubleclick.net''"
    by (simp_all add: host_name_def trim_end_char_def ascii_lower_def)
  have r1: "rule_name U (lit ''||doubleclick.net^'') = Some (lit ''doubleclick.net'')"
    and r2: "rule_name U (lit ''||googlesyndication.com^'') = Some (lit ''googlesyndication.com'')"
    using rule_adblock [OF hosts(1), of "[]" U] rule_adblock [OF hosts(2), of "[]" U] self by simp_all
  have "trim_start_str (lit ''@@'') (lit ''@@allowed.doubleclick.net'') = lit ''allowed.doubleclick.net''"
    using trim_start_str_once [of "lit ''@@''" "lit ''allowed.doubleclick.net''"]
    by (simp add: starts_with_def)
  then have r3: "allow_name_of U (lit ''@@allowed.doubleclick.net'') = Some (lit ''allowed.doubleclick.net'')"
    using rule_plain [OF hosts(3), of U] self(3) by (simp add: allow_name_of_def del: lit_simps)
  have new: "block_names engine_new = {}" "allow_names engine_new = {}"
    by (simp_all add: block_names_def allow_names_def engine_new_def trie_new_def)
  note 1 = load_blocklist_rule_names [OF engine_inv_new, of U "lit ''||doubleclick.net^''"]
  note 2 = load_blocklist_rule_names [OF 1(1), of U "lit ''||googlesyndication.com^''"]
  note 3 = load_allowlist_rule_names [OF 2(1), of U "lit ''@@allowed.doubleclick.net''"]
  show ?thesis
    using 1 2 3 r1 r2 r3 new
    by (intro exI [of _ "load_allowlist_rule U (lit ''@@allowed.doubleclick.net'')
        (load_blocklist_rule U (lit ''||googlesyndication.com^'')
          (load_blocklist_rule U (lit ''||doubleclick.net^'') engine_new))"])
      (simp add: test_domain_def fun_eq_iff Let_def insert_commute del: lit_simps)
qed

lemma test_domain_verdict:
  assumes "hostname d"
  shows "test_domain U d =
    (let n = map ascii_lower (trim_end_char 46 d) in
     if under n (lit ''allowed.doubleclick.net'') then AllowListMatched n
     else if under n (lit ''doubleclick.net'') \<or> under n (lit ''googlesyndication.com'') then Blocked n
     else Allowed)"
proof -
  obtain e where e: "engine_inv e" "test_domain U = evaluate U e"
      "block_names e = {lit ''doubleclick.net'', lit ''googlesyndication.com''}"
      "allow_names e = {lit ''allowed.doubleclick.net''}"
    using test_domain_names by blast
  then show ?thesis using normalize_idem [OF assms, of U]
    by (simp add: evaluate_covers [OF e(1)] normalize_hostname [OF assms] covers_def Let_def)
qed

end
