(* ===== verification/Launch.thy ===== *)
theory Launch
  imports Runs Startup
begin

text \<open>
  \<open>main\<close> and \<open>run_server\<close> as a whole: the command that was given, and the start of the server
  from the configuration to the state from which its tasks run. What is printed is left out.
\<close>

datatype commands = Run rstr | TestDomain rstr | ValidateConfig rstr | Benchmark

text \<open>The start: configuration, lists, cache and forwarder, then the listeners.\<close>

definition run_server ::
  "('c, 'w, 's) platform \<Rightarrow> environment \<Rightarrow> toml_api \<Rightarrow> (rstr \<Rightarrow> string + rstr)
     \<Rightarrow> (listener \<Rightarrow> 'w \<Rightarrow> (string + unit) \<times> 'w) \<Rightarrow> ('f, 'cert, 'k, 'a) tls_api \<Rightarrow> rstr \<Rightarrow> 'w
     \<Rightarrow> (string + ('c, 'w) system \<times> listener list) \<times> 'w" where
  "run_server P getenv T read_file bind A config_path w =
     (let config = effective_config (pf_unicode P) getenv T read_file config_path;
          st = start_service P getenv T read_file config_path
      in case open_listeners bind A config w of
           (Inl e, w) \<Rightarrow> (Inl e, w)
         | (Inr listeners, w) \<Rightarrow> (Inr (booted st w, listeners), w))"

datatype ('c, 'w) main_result =
    Verdict filter_result
  | ExitCode nat
  | Measured "filter_result list"
  | Serving "('c, 'w) system" "listener list"
  | StartFailed string

definition serving :: "(string + ('c, 'w) system \<times> listener list) \<times> 'w \<Rightarrow> ('c, 'w) main_result \<times> 'w" where
  "serving r =
     (case r of (Inl e, w) \<Rightarrow> (StartFailed e, w) | (Inr (s, listeners), w) \<Rightarrow> (Serving s listeners, w))"

text \<open>The benchmark's loop: a million lookups among a hundred thousand rules.\<close>

definition benchmark_lookups :: "unicode \<Rightarrow> nat \<Rightarrow> nat \<Rightarrow> filter_result list" where
  "benchmark_lookups U rules iterations =
     (let engine = benchmark_engine U rules
      in map (\<lambda>i. evaluate U engine (benchmark_query i)) [0..<iterations])"

definition main_command ::
  "('c, 'w, 's) platform \<Rightarrow> environment \<Rightarrow> toml_api \<Rightarrow> (rstr \<Rightarrow> string + rstr)
     \<Rightarrow> (listener \<Rightarrow> 'w \<Rightarrow> (string + unit) \<times> 'w) \<Rightarrow> ('f, 'cert, 'k, 'a) tls_api
     \<Rightarrow> commands option \<Rightarrow> 'w \<Rightarrow> ('c, 'w) main_result \<times> 'w" where
  "main_command P getenv T read_file bind A command w =
     (case command of
        Some (TestDomain domain) \<Rightarrow> (Verdict (test_domain (pf_unicode P) domain), w)
      | Some (ValidateConfig config) \<Rightarrow>
          (ExitCode (validate_config_exit (pf_unicode P) getenv T read_file config), w)
      | Some Benchmark \<Rightarrow> (Measured (benchmark_lookups (pf_unicode P) 100000 1000000), w)
      | Some (Run config) \<Rightarrow> serving (run_server P getenv T read_file bind A config w)
      | None \<Rightarrow>
          serving (run_server P getenv T read_file bind A (lit ''config/vanta-dns.toml'') w))"

section \<open>Lemmas\<close>

lemma benchmark_blocks_half:
  assumes "5000 < n"
  shows "benchmark_lookups U n k =
    map (\<lambda>i. if i mod 2 = 0 then Blocked (lit ''sub.bad-domain-5000.com'') else Allowed) [0..<k]"
  by (simp add: benchmark_lookups_def benchmark_verdicts [OF assms] del: lit_simps)

text \<open>A server that starts listens where its configuration says.\<close>

lemma run_server_ok:
  assumes "run_server P getenv T rd bind A path w = (Inr (s, ls), w')"
  shows "s = booted (start_service P getenv T rd path) w'"
    "ls = (let c = effective_config (pf_unicode P) getenv T rd path in
      UdpOn (bind_addr c) # (if tcp_enabled c then [TcpOn (bind_addr c)] else [])
      @ (if tls_enabled c then [TlsOn (tls_bind_addr c)] else []))"
proof -
  let ?c = "effective_config (pf_unicode P) getenv T rd path"
  have o: "open_listeners bind A ?c w = (Inr ls, w')" and s: "s = booted (start_service P getenv T rd path) w'"
    using assms by (auto simp: run_server_def Let_def split: prod.splits sum.splits)
  show "s = booted (start_service P getenv T rd path) w'" by (rule s)
  show "ls = (let c = ?c in
      UdpOn (bind_addr c) # (if tcp_enabled c then [TcpOn (bind_addr c)] else [])
      @ (if tls_enabled c then [TlsOn (tls_bind_addr c)] else []))"
    using open_listeners_ok [OF o] by (simp add: Let_def)
qed

lemma open_listeners_acceptor:
  "open_listeners bind A c w = (Inr ls, w') \<Longrightarrow> tls_enabled c \<Longrightarrow> \<exists>a. build_tls_acceptor A c = Inr (Some a)"
  using build_tls_acceptor_some [of A c]
  by (auto simp: open_listeners_def split: prod.splits sum.splits if_splits option.splits)

lemma run_server_acceptor:
  "run_server P getenv T rd bind A path w = (Inr (s, ls), w') \<Longrightarrow>
    tls_enabled (effective_config (pf_unicode P) getenv T rd path) \<Longrightarrow>
    \<exists>a. build_tls_acceptor A (effective_config (pf_unicode P) getenv T rd path) = Inr (Some a)"
  by (auto simp: run_server_def Let_def split: prod.splits sum.splits dest: open_listeners_acceptor)

end
