(* ===== verification/Health.thy ===== *)
theory Health
  imports RustString Prelude
begin

text \<open>\<open>health/state.rs\<close>: the service states, their display names and the initial health record.\<close>

datatype service_state = Starting | Online | Degraded | Offline | Reconnecting | Error | Stopped

primrec service_state_name :: "service_state \<Rightarrow> string" where
  "service_state_name Starting = ''STARTING''"
| "service_state_name Online = ''ONLINE''"
| "service_state_name Degraded = ''DEGRADED''"
| "service_state_name Offline = ''OFFLINE''"
| "service_state_name Reconnecting = ''RECONNECTING''"
| "service_state_name Error = ''ERROR''"
| "service_state_name Stopped = ''STOPPED''"

record system_health =
  sh_state :: service_state
  agh_healthy :: bool
  unbound_healthy :: bool
  local_network_connected :: bool
  internet_connected :: bool
  blocklists_loaded :: bool
  total_queries :: u64
  total_blocked :: u64
  cache_hits :: u64

definition system_health_default :: system_health where
  "system_health_default = \<lparr>sh_state = Starting, agh_healthy = True, unbound_healthy = True,
     local_network_connected = True, internet_connected = True, blocklists_loaded = True,
     total_queries = 0, total_blocked = 0, cache_hits = 0\<rparr>"

text \<open>Different states are told apart by what is displayed.\<close>

lemma service_state_name_inj: "inj service_state_name"
proof (rule injI)
  fix x y assume "service_state_name x = service_state_name y"
  then show "x = y" by (cases x; cases y) simp_all
qed

end
