(* ===== verification/Spec2Isabelle.thy ===== *)
theory Spec2Isabelle
  imports Replies Launch Health
begin

text \<open>
  VantaDNS core (\<open>src/dns-core\<close>): a filtering, caching DNS forwarder in Rust.

  \<^bold>\<open>The program.\<close> The server reads a configuration and rule files, then answers DNS queries that
  arrive as datagrams, over TCP or over TLS. A query is parsed, checked against an allow list and
  a block list, looked up in a response cache and, if nothing answers it, forwarded to the
  upstream resolvers in order; an upstream answer is cached and passed on. A query for a blocked
  name is answered locally, with NXDOMAIN or with the address 0.0.0.0.

  \<^bold>\<open>Theories and code.\<close>
  \<^item> \<open>Prelude\<close>: machine integers, the outcomes of a call (value, error, panic, no return), the \<open>?\<close>
    operator, counted loops, big-endian integers.
  \<^item> \<open>RustString\<close>, \<open>Utf8\<close>, \<open>SockAddr\<close>: what the code uses of the standard library: strings, UTF-8,
    the parser of socket addresses.
  \<^item> \<open>ByteIO\<close>: the cursor, and the interface of the \<open>bytes\<close> crate (locale \<open>byte_io\<close>).
  \<^item> \<open>Header\<close>, \<open>Question\<close>, \<open>ResourceRecord\<close>, \<open>Packet\<close>: \<open>protocol/header.rs\<close>, \<open>question.rs\<close>, \<open>rr.rs\<close>,
    \<open>mod.rs\<close>. The structs are records, the enums datatypes; \<open>parse\<close> functions take and return the
    cursor, \<open>write_to\<close> functions take and return the bytes written so far.
  \<^item> \<open>DomainTrie\<close>, \<open>RuleSyntax\<close>, \<open>FilterEngine\<close>: \<open>filter/trie.rs\<close> and \<open>engine.rs\<close>. The hash sets are sets
    of strings.
  \<^item> \<open>LruStore\<close>, \<open>Cache\<close>: the interface of the \<open>lru\<close> crate (locale \<open>lru_store\<close>) and
    \<open>cache/lru_cache.rs\<close> over it; durations are nanoseconds, clock readings are arguments.
  \<^item> \<open>Forwarder\<close>: \<open>resolver/forwarder.rs\<close>; the sockets and timers of tokio are the record \<open>net_api\<close>,
    acting on a world of any type.
  \<^item> \<open>Config\<close>: \<open>config.rs\<close>; the TOML reader is the record \<open>toml_api\<close>, files and environment are
    functions.
  \<^item> \<open>Server\<close>, \<open>Service\<close>: \<open>main.rs\<close>: the lists and the shared state, the handling of one query, the
    stream loop, and the laws of the service.
  \<^item> \<open>Tasks\<close>, \<open>System\<close>, \<open>Runs\<close>: the spawned tasks. A datagram's task and a connection's task are state
    machines whose steps lie between the waits of the code: for an upstream, for the client,
    for the lock of the cache. The system interleaves them in any order, with the lock, the accept
    loops and changes of the world outside (\<open>sys_run\<close>); \<open>Runs\<close> relates runs in which one task takes
    every step (\<open>own_run\<close>) to the functions of \<open>Server\<close>.
  \<^item> \<open>Startup\<close>, \<open>Launch\<close>: TLS acceptor, listeners, commands, \<open>run_server\<close> and \<open>main\<close>.
  \<^item> \<open>Replies\<close>, \<open>Examples\<close>: replies on the wire, and a worked instance for the witnesses.
  \<^item> \<open>Health\<close>: \<open>health/state.rs\<close>.

  \<^bold>\<open>Interfaces.\<close> \<open>byte_io\<close> (interpreted by \<open>slice_api\<close>, its only model), \<open>item_codec\<close> (a section of a
  message; \<open>byte_io\<close> gives it for questions and records), \<open>rule_store\<close> (interpreted by the trie),
  \<open>lru_store\<close> and \<open>response_store\<close> (interpreted by a list in order of use), \<open>service_libs\<close> (both
  libraries together, interpreted by \<open>list_platform\<close>). A property that depends on a library has the
  locale's predicate as its hypothesis, and its witness discharges it with these instances.

  \<^bold>\<open>What is shown.\<close> Codecs: round trips of headers, names and whole messages; parsing returns on
  every input, and where it can panic. Filter: what a rule line means, what files contribute, and
  the verdict as coverage by the two name sets. Cache: refinement of an unbounded map over any
  history, lifetimes, eviction order, counters. Forwarder: first answer, last error, sizes.
  Configuration: soundness of what loads, meaning and round trip of the upstream list. Service: the invariant that the cache holds nothing but
  upstream answers to permitted names, kept by queries, connections and every interleaving of
  tasks; replies that fit their query; equality of the stream and the datagram reply; refinement
  of the functions by the steps; who keeps the lock of the cache, and what a client that does not
  read does to everybody else; progress of tasks, and the end of queries and connections. Some theorems record behaviour that the code does not seem
  to intend; they are listed as findings of the manifest.

  \<^bold>\<open>Bounds.\<close> Loops are structural or have measures. The loop over a name is a
  \<open>partial_function\<close> proved to return, by the 51 jumps it allows and the bytes left. The stream loop
  is one too, and ends when the client's input does, or in an operation on the stream that stays
  pending: the code sets no time limit for its clients, so reads, writes and flushes of a stream
  may never return (\<open>ReadPending\<close>, \<open>WritePending\<close>). Its exchanges with upstreams have time-outs. No
  fuel is used.

  \<^bold>\<open>Not modelled.\<close> Logging and console output; the command line parser; the expansion of
  \<open>serde\<close> and \<open>thiserror\<close> derives; the choice of the executor which task runs next (any order is
  allowed) and shutdown; a build without the \<open>tls\<close> feature (the default has it). Arithmetic that
  overflows wraps, as in a release build. The exchange with one upstream and the writing of one
  reply are single steps of their task: the world may change before and after them in any way, and
  a reply whose writing would stay pending is no step (the task waits where it is).
  A connection may come in whatever the listeners are. The scripts, blocklists, phone and deployment files
  of the repository are not part of the Rust program.
\<close>

declare lit_simps [simp del]

section \<open>Properties of the service\<close>

text \<open>C1: the server is safe, however its tasks interleave. In every state it can reach after its
  start, the cache is well-formed and holds under each name and type nothing but what an
  upstream answered to a query for them that the filter lets through; the lock of the cache is
  kept by no one but the one connection that writes a cached reply; a reply to a blocked name,
  to a datagram or on a connection, is the local one; every other reply is what an upstream
  answered to this query, or such a cached answer, or SERVFAIL; and a task only crashes on a
  message whose parsing panics.\<close>

theorem server_safe:
  assumes "byte_io (pf_buf P)" "response_store (pf_lru P) entries valid"
    and "reachable P (start_service P getenv T rd path) s"
  shows "sys_inv P entries valid (start_service P getenv T rd path) s"
  using service_libs.reachable_inv [OF service_libs_intro [OF assms(1,2)] assms(3)]
    service_libs.start_service_inv [OF service_libs_intro [OF assms(1,2)]] by blast

theorem server_safe_witness:
  "\<forall>U. \<exists>st w. reachable (sample_platform clock U) (sample_service U)
      (lone_task (Finished sample_query (Some sample_answer)) st w)
    \<and> svc_inv (sample_platform clock U) snd list_lru_valid st
    \<and> reply_fits (sample_platform clock U) (sample_service U) sample_query sample_answer"
proof
  fix U
  obtain st w where r: "resolve_dns_query (sample_platform clock U) sample_query (sample_service U) 0 =
      (Ok (Some sample_answer), st, w)"
    using sample_resolution [where tick = clock and U = U and w = 0] by blast
  have "length sample_query \<le> 4096" by (simp add: sample_query_def)
  from reachable_own [OF resolve_as_steps [OF r] reachable_task [OF this]]
  have s: "reachable (sample_platform clock U) (sample_service U)
      (lone_task (Finished sample_query (Some sample_answer)) st w)" .
  show "\<exists>st w. reachable (sample_platform clock U) (sample_service U)
      (lone_task (Finished sample_query (Some sample_answer)) st w)
    \<and> svc_inv (sample_platform clock U) snd list_lru_valid st
    \<and> reply_fits (sample_platform clock U) (sample_service U) sample_query sample_answer"
    using server_safe [OF sample_buf sample_lru s [unfolded sample_service_def]] s
    by (auto simp: sys_inv_def lone_task_def booted_def sample_service_def [symmetric])
qed

text \<open>C2: a query for a blocked name is answered on the spot with NXDOMAIN: the reply parses as the
  query turned into a response, with the same identifier, questions and flags; the cache is not
  consulted and no upstream is asked.\<close>

theorem blocked_query_nxdomain:
  assumes "byte_io (pf_buf P)" "engine_inv (svc_filter st)" "svc_block_mode st = lit ''nxdomain''"
    and "wire_packet (pf_unicode P) p" "questions p = q # qs" "hostname (q_name q)"
    and "covers (block_names (svc_filter st)) (map ascii_lower (trim_end_char 46 (q_name q)))"
    and "\<not> covers (allow_names (svc_filter st)) (map ascii_lower (trim_end_char 46 (q_name q)))"
  shows "\<exists>reply. resolve_dns_query P (to_bytes (pf_buf P) p) st w = (Ok (Some reply), st, w)
    \<and> packet_parse (pf_buf P) (pf_unicode P) reply = Ok (nxdomain_reply p)"
  using blocked_nxdomain_bytes [OF assms(1,4,5) _ assms(3)] is_blocked_iff [OF assms(2,6)] assms(7,8)
  by (simp add: Let_def)

definition blocking_service :: "unicode \<Rightarrow> rstr \<Rightarrow> (nat \<times> (cache_key \<times> cached_response) list) dns_service_state" where
  "blocking_service U mode = (sample_service U)\<lparr>svc_filter := sample_engine, svc_block_mode := mode\<rparr>"

definition ads_query :: dns_packet where
  "ads_query = query_packet\<lparr>questions := [\<lparr>q_name = lit ''x.ads.io'', q_type = QT_A, q_class = QC_IN\<rparr>]\<rparr>"

lemma ads_query_facts:
  "wire_packet U ads_query" "hostname (lit ''x.ads.io'')"
  "map ascii_lower (trim_end_char 46 (lit ''x.ads.io'')) = lit ''x.ads.io''"
  "covers (block_names sample_engine) (lit ''x.ads.io'')"
  "\<not> covers (allow_names sample_engine) (lit ''x.ads.io'')"
proof -
  show "wire_packet U ads_query"
    by (simp add: lit_simps ads_query_def query_packet_def wire_packet_def wire_question_def wire_name_def
      wire_label_def scalar_def as_bytes_def utf8_char_def to_lowercase_def
      char_lower_def ascii_lower_def canonical_type_def canonical_class_def qtype_from_u16_def
      qclass_from_u16_def)
  show "hostname (lit ''x.ads.io'')" by (simp add: lit_simps hostname_def ascii_def is_ws_def)
  show "map ascii_lower (trim_end_char 46 (lit ''x.ads.io'')) = lit ''x.ads.io''"
    by (simp add: lit_simps trim_end_char_def ascii_lower_def)
  have "under (lit ''x.ads.io'') (lit ''ads.io'')"
    unfolding under_def by (intro disjI2 exI [of _ "lit ''x''"]) (simp add: lit_simps)
  then show "covers (block_names sample_engine) (lit ''x.ads.io'')"
    by (simp add: covers_def block_names_def sample_engine_def)
  show "\<not> covers (allow_names sample_engine) (lit ''x.ads.io'')"
    by (auto simp: lit_simps covers_def allow_names_def sample_engine_def under_def Cons_eq_append_conv)
qed

theorem blocked_query_nxdomain_witness:
  "\<forall>U w. \<exists>reply. resolve_dns_query (sample_platform clock U) (to_bytes slice_api ads_query)
      (blocking_service U (lit ''nxdomain'')) w = (Ok (Some reply), blocking_service U (lit ''nxdomain''), w)
    \<and> packet_parse slice_api U reply = Ok (nxdomain_reply ads_query)"
proof (intro allI)
  fix U w
  let ?P = "sample_platform clock U" and ?st = "blocking_service U (lit ''nxdomain'')"
  have st: "svc_filter ?st = sample_engine" "svc_block_mode ?st = lit ''nxdomain''"
    by (simp_all add: blocking_service_def)
  from blocked_query_nxdomain [where P = ?P and st = ?st and p = ads_query and qs = "[]" and w = w, OF sample_buf] ads_query_facts(1) [of U] ads_query_facts(2-5) st
    sample_engine_inv
  show "\<exists>reply. resolve_dns_query ?P (to_bytes slice_api ads_query) ?st w = (Ok (Some reply), ?st, w)
    \<and> packet_parse slice_api U reply = Ok (nxdomain_reply ads_query)"
    by (simp add: ads_query_def)
qed

text \<open>C24: in the other block mode a query for the address of a blocked name is answered with
  0.0.0.0 for ten seconds, and nothing else changes.\<close>

theorem blocked_query_zero_ip:
  assumes "byte_io (pf_buf P)" "engine_inv (svc_filter st)" "svc_block_mode st \<noteq> lit ''nxdomain''"
    and "wire_packet (pf_unicode P) p" "questions p = q # qs" "q_type q = QT_A"
    and "length (answers p) < 65535" "hostname (q_name q)"
    and "covers (block_names (svc_filter st)) (map ascii_lower (trim_end_char 46 (q_name q)))"
    and "\<not> covers (allow_names (svc_filter st)) (map ascii_lower (trim_end_char 46 (q_name q)))"
  shows "\<exists>reply. resolve_dns_query P (to_bytes (pf_buf P) p) st w = (Ok (Some reply), st, w)
    \<and> packet_parse (pf_buf P) (pf_unicode P) reply = Ok (zero_ip_reply p q)"
  using blocked_zero_ip_bytes [OF assms(1,4,5,6,7) _ assms(3)] is_blocked_iff [OF assms(2,8)] assms(9,10)
  by (simp add: Let_def)

theorem blocked_query_zero_ip_witness:
  "\<forall>U w. \<exists>reply. resolve_dns_query (sample_platform clock U) (to_bytes slice_api ads_query)
      (blocking_service U (lit ''zero_ip'')) w = (Ok (Some reply), blocking_service U (lit ''zero_ip''), w)
    \<and> packet_parse slice_api U reply = Ok (zero_ip_reply ads_query (hd (questions ads_query)))"
proof (intro allI)
  fix U w
  let ?P = "sample_platform clock U" and ?st = "blocking_service U (lit ''zero_ip'')"
  have st: "svc_filter ?st = sample_engine" "svc_block_mode ?st = lit ''zero_ip''"
    by (simp_all add: blocking_service_def)
  have "lit ''zero_ip'' \<noteq> lit ''nxdomain''" "answers ads_query = []"
    by (simp_all add: lit_simps ads_query_def query_packet_def)
  with blocked_query_zero_ip [where P = ?P and st = ?st and p = ads_query and qs = "[]" and w = w, OF sample_buf] ads_query_facts(1) [of U] ads_query_facts(2-5) st
    sample_engine_inv
  show "\<exists>reply. resolve_dns_query ?P (to_bytes slice_api ads_query) ?st w = (Ok (Some reply), ?st, w)
    \<and> packet_parse slice_api U reply = Ok (zero_ip_reply ads_query (hd (questions ads_query)))"
    by (simp add: ads_query_def)
qed

text \<open>C3: handling one query always ends: with a reply or without, or in the crash of its own task,
  never in an endless loop or an error; and it keeps the invariant of the service, whose
  upstreams, filter and block mode never change.\<close>

theorem resolve_keeps_service:
  assumes "byte_io (pf_buf P)" "response_store (pf_lru P) entries valid"
    and "svc_inv P entries valid st" "resolve_dns_query P query st w = (r, st', w')"
  shows "svc_inv P entries valid st' \<and> same_settings st st' \<and> (r = Panic \<or> (\<exists>reply. r = Ok reply))"
  using service_libs.resolve_dns_query_facts [OF service_libs_intro [OF assms(1,2)] assms(3,4)] by blast

theorem resolve_keeps_service_witness:
  "\<forall>U. \<exists>st w. resolve_dns_query (sample_platform clock U) sample_query (sample_service U) 0 =
      (Ok (Some sample_answer), st, w) \<and> svc_inv (sample_platform clock U) snd list_lru_valid st"
proof
  fix U
  obtain st w where r: "resolve_dns_query (sample_platform clock U) sample_query (sample_service U) 0 =
      (Ok (Some sample_answer), st, w)"
    using sample_resolution [where tick = clock and U = U and w = 0] by blast
  from r resolve_keeps_service [OF sample_buf sample_lru sample_service_inv r]
  show "\<exists>st w. resolve_dns_query (sample_platform clock U) sample_query (sample_service U) 0 =
      (Ok (Some sample_answer), st, w) \<and> svc_inv (sample_platform clock U) snd list_lru_valid st"
    by blast
qed

text \<open>C13: over a stream the client is sent the very reply that it would get as a datagram, behind its
  length; where a datagram gets no reply, the stream stays silent or, when the upstreams
  failed, gets SERVFAIL. Either way the connection goes on.\<close>

theorem tcp_sends_udp_reply:
  assumes "byte_io (pf_buf P)" "response_store (pf_lru P) entries valid"
    and "records_output S (pf_net P) sent" "svc_inv P entries valid st"
    and "resolve_dns_query P query st w = (Ok reply, st1, w1)"
    and "tcp_answer P S query st w = (x, st2, w2)"
  shows "x = Ok Again \<and> (case reply of
      Some bytes \<Rightarrow> sent w2 = sent w @ frame bytes
    | None \<Rightarrow> sent w2 = sent w \<or>
        (\<exists>packet. packet_parse (pf_buf P) (pf_unicode P) query = Ok packet
          \<and> sent w2 = sent w @ frame (servfail_reply (pf_buf P) packet)))"
  by (rule service_libs.tcp_answer_resolves [OF service_libs_intro [OF assms(1,2)] assms(3-6)])

theorem tcp_sends_udp_reply_witness:
  "\<forall>U. wire_sent (snd (snd (tcp_answer (sample_platform wire_clock U) mem_stream sample_query
      (sample_service U) (0, [], [])))) = frame sample_answer"
proof
  fix U
  let ?P = "sample_platform wire_clock U" and ?w = "(0, [], []) :: wire"
  obtain st1 w1 where r: "resolve_dns_query ?P sample_query (sample_service U) ?w = (Ok (Some sample_answer), st1, w1)"
    using sample_resolution [where tick = wire_clock and U = U and w = ?w] by blast
  obtain x st2 w2 where t: "tcp_answer ?P mem_stream sample_query (sample_service U) ?w = (x, st2, w2)"
    by (metis prod.collapse)
  have o: "records_output mem_stream (pf_net ?P) wire_sent" by (simp add: mem_records)
  from tcp_sends_udp_reply [OF sample_buf sample_lru o sample_service_inv r t] t
  show "wire_sent (snd (snd (tcp_answer ?P mem_stream sample_query (sample_service U) ?w))) = frame sample_answer"
    by (simp add: wire_sent_def)
qed

text \<open>C23: how a connection ends, if its client sends finitely many bytes. Either it is served to its end,
  or it waits for its client for ever, which it does only if the client keeps some operation
  pending, and does, for there is no time limit, already if no whole first message comes. Either
  way the service is left in order.\<close>

theorem connection_ends:
  assumes "byte_io (pf_buf P)" "response_store (pf_lru P) entries valid"
    and "finite_input S (pf_net P) avail" "svc_inv P entries valid st"
  shows "\<exists>r st' w'. serve_tcp_dns P S st w = Some (r, st', w')
    \<and> (responsive S \<longrightarrow> r \<noteq> Hang) \<and> (fst (read_message S w) = Hang \<longrightarrow> r = Hang)
    \<and> svc_inv P entries valid st' \<and> same_settings st st'"
proof -
  obtain r st' w' where s: "serve_tcp_dns P S st w = Some (r, st', w')"
    using serve_tcp_dns_returns [OF assms(3), of st w] by (metis prod.collapse)
  moreover have "fst (read_message S w) = Hang \<Longrightarrow> r = Hang"
    using s by (subst (asm) serve_tcp_dns.simps) (auto simp: tcp_turn_def split: prod.splits)
  ultimately show ?thesis
    using service_libs.serve_tcp_dns_facts [OF service_libs_intro [OF assms(1,2)] s assms(4)] by blast
qed

text \<open>A client that asks twice and closes; and one that sends one byte and then nothing.\<close>

theorem connection_ends_witness:
  "\<forall>U. (\<exists>r st' w'. serve_tcp_dns (sample_platform wire_clock U) mem_stream (sample_service U)
      (0, frame sample_query @ frame sample_query, []) = Some (r, st', w') \<and> r \<noteq> Hang)
    \<and> (\<exists>st' w'. serve_tcp_dns (sample_platform wire_clock U) idle_stream (sample_service U)
      (0, [0], []) = Some (Hang, st', w'))"
proof
  fix U
  let ?P = "sample_platform wire_clock U" and ?st = "sample_service U"
  have f: "finite_input mem_stream (pf_net ?P) wire_avail" "finite_input idle_stream (pf_net ?P) wire_avail"
    by (simp_all add: mem_finite)
  have idle: "fst (read_message idle_stream (0, [0], [])) = Hang"
    by (simp add: read_message_def idle_stream_def)
  have 1: "\<exists>r st' w'. serve_tcp_dns ?P mem_stream ?st (0, frame sample_query @ frame sample_query, []) =
      Some (r, st', w') \<and> r \<noteq> Hang"
    using connection_ends [OF sample_buf sample_lru f(1) sample_service_inv,
        of "(0, frame sample_query @ frame sample_query, [])"] mem_responsive by blast
  have 2: "\<exists>st' w'. serve_tcp_dns ?P idle_stream ?st (0, [0], []) = Some (Hang, st', w')"
    using connection_ends [OF sample_buf sample_lru f(2) sample_service_inv, of "(0, [0], [])"] idle by blast
  from 1 2 show "(\<exists>r st' w'. serve_tcp_dns ?P mem_stream ?st
      (0, frame sample_query @ frame sample_query, []) = Some (r, st', w') \<and> r \<noteq> Hang)
    \<and> (\<exists>st' w'. serve_tcp_dns ?P idle_stream ?st (0, [0], []) = Some (Hang, st', w'))" ..
qed

text \<open>C8: no task gets stuck by itself. In a reachable state every task of a datagram that has not ended
  can take its next step, which brings it closer to its end, and every open connection can take
  its own, unless its own client keeps it waiting; or they wait for the lock of the cache, and
  then the connection that keeps it can take its step and release it, unless the client of that
  connection does not take the reply.\<close>

theorem tasks_progress:
  assumes "byte_io (pf_buf P)" "response_store (pf_lru P) entries valid"
    and "st0 = start_service P getenv T rd path" "reachable P st0 s"
  shows "let left = steps_left (length (upstreams (svc_forwarder st0))) in
    (\<forall>i < length (sys_tasks s). 0 < left (sys_tasks s ! i) \<longrightarrow>
      (\<exists>s'. sys_step P (Task i) s s' \<and> left (sys_tasks s' ! i) < left (sys_tasks s ! i))
      \<or> (\<exists>j. sys_lock s = Some j
          \<and> (stalled s j \<or> (\<exists>s'. sys_step P (Conn j) s s' \<and> sys_lock s' = None))))
    \<and> (\<forall>i < length (sys_conns s). \<not> conn_done (snd (sys_conns s ! i)) \<longrightarrow>
      (\<exists>s'. sys_step P (Conn i) s s') \<or> stalled s i
      \<or> (\<exists>j. sys_lock s = Some j
          \<and> (stalled s j \<or> (\<exists>s'. sys_step P (Conn j) s s' \<and> sys_lock s' = None))))"
proof -
  note libs = service_libs_intro [OF assms(1,2)]
  have inv: "sys_inv P entries valid st0 s"
    using service_libs.reachable_inv [OF libs assms(4)] service_libs.start_service_inv [OF libs] assms(3)
    by simp
  show ?thesis
    using service_libs.task_moves [OF libs inv] service_libs.conn_moves [OF libs inv]
    unfolding Let_def by blast
qed

theorem tasks_progress_witness:
  "\<forall>U. \<exists>s'. sys_step (sample_platform clock U) (Task 0)
      (lone_task (Arrived sample_query) (sample_service U) 0) s'
    \<and> steps_left 1 (sys_tasks s' ! 0) < 4"
proof
  fix U
  let ?P = "sample_platform clock U" and ?s = "lone_task (Arrived sample_query) (sample_service U) 0"
  have "length sample_query \<le> 4096" by (simp add: sample_query_def)
  from reachable_task [OF this] have r: "reachable ?P (sample_service U) ?s" .
  have st: "sample_service U = start_service ?P (\<lambda>x. None) sample_toml no_file (lit ''f'')"
    by (simp only: sample_service_start)
  have one: "length (upstreams (svc_forwarder (sample_service U))) = 1"
    by (simp add: with_upstreams_def)
  have task: "sys_tasks ?s = [Arrived sample_query]" "sys_lock ?s = None"
    by (simp_all add: lone_task_def booted_def)
  from tasks_progress [OF sample_buf sample_lru st r, unfolded Let_def, THEN conjunct1, rule_format, of 0]
  show "\<exists>s'. sys_step ?P (Task 0) ?s s' \<and> steps_left 1 (sys_tasks s' ! 0) < 4"
    unfolding one task by (simp del: One_nat_def)
qed

lemma query_questions: "questions query_packet = [sample_question]"
  by (simp add: query_packet_def)

text \<open>A connection whose query is in the cache gets to its reply.\<close>

lemma holding_connection:
  assumes "strm_read_exact S = strm_read_exact mem_stream"
  shows "\<exists>reply st w. own_run (sample_platform wire_clock U) (Conn 0)
      (lone_conn S Reading (cached_service U) (0, frame second_query, []))
      (lone_conn S (SendingHit second_query reply) st w)
    \<and> svc_filter st = engine_new"
proof -
  let ?P = "sample_platform wire_clock U" and ?st = "cached_service U" and ?w = "(0, [], []) :: wire"
  let ?e = "new_entry (from_secs 60) (from_secs 86400) 0 QT_A answer_packet"
  obtain hit st w where l: "lookup_cache ?P sample_question ?st ?w = (hit, st, w)" by (metis prod.collapse)
  have now: "net_now (pf_net ?P) ?w = (0, (1, [], []))" by (simp add: fixed_net_def wire_clock_def)
  have m: "cache_map snd (svc_cache ?st) (cache_key (pf_unicode ?P) (q_name sample_question)
      (q_type sample_question)) = Some ?e"
    using sample_key [of U] cached_service_map by simp
  have live: "\<not> is_expired 0 ?e" by (simp add: is_expired_def elapsed_def new_entry_def from_secs_def)
  obtain c where c: "hit = Some c"
    using service_libs.lookup_cache_hit [OF sample_libs cached_service_inv l now m live] by blast
  have filter: "svc_filter ?st = engine_new" by (simp add: cached_service_def)
  have st: "svc_filter st = engine_new"
    using service_libs.lookup_cache_facts(2) [OF sample_libs cached_service_inv l] filter
    by (simp add: same_settings_def)
  have 1: "conn_turn ?P S Reading ?st (0, frame second_query, []) = Some (Deciding second_query, ?st, ?w)"
    by (simp add: conn_turn_def read_message_def assms mem_stream_def frame_def bytes16_def
        be16_def second_query_def sample_query_def)
  have 2: "conn_turn ?P S (Deciding second_query) ?st ?w =
      Some (SendingHit second_query (to_bytes slice_api c), st, w)"
    using l c by (simp add: conn_turn_def resolve_front_def second_query_parse filter engine_new_allows
        query_questions)
  from own_run_trans [OF run_conn [OF 1] run_conn [OF 2]] st show ?thesis by blast
qed

text \<open>Then a datagram with the same question arrives.\<close>

lemma waiting_datagram:
  assumes "strm_read_exact S = strm_read_exact mem_stream"
  shows "\<exists>reply s. reachable (sample_platform wire_clock U) (cached_service U) s
    \<and> sys_tasks s = [Arrived sample_query] \<and> sys_lock s = Some 0 \<and> svc_filter (sys_state s) = engine_new
    \<and> length (sys_conns s) = 1 \<and> sys_conns s ! 0 = (S, SendingHit second_query reply)"
proof -
  let ?P = "sample_platform wire_clock U"
  obtain reply st w where r: "own_run ?P (Conn 0)
      (lone_conn S Reading (cached_service U) (0, frame second_query, []))
      (lone_conn S (SendingHit second_query reply) st w)" and f: "svc_filter st = engine_new"
    using holding_connection [OF assms, of U] by blast
  let ?h = "lone_conn S (SendingHit second_query reply) st w"
  let ?s = "?h\<lparr>sys_tasks := sys_tasks ?h @ [Arrived (take 4096 sample_query)]\<rparr>"
  have "reachable ?P (cached_service U) ?s"
    by (rule reachable.step [OF reachable_own [OF r reachable_conn] sys_step.receive])
  with f show ?thesis
    by (intro exI [of _ reply] exI [of _ ?s]) (simp add: lone_conn_def booted_def sample_query_def)
qed

text \<open>C9: every query can be finished, from every state that a server in order, as one that has just
  started, can get to, unless someone keeps the lock of the cache for ever: if the client of the
  connection that keeps the lock can take its reply at some time, there is a run after which the
  query's task has ended. No other interleaving leads into a state from which a query cannot
  be answered any more.\<close>

theorem queries_finish:
  assumes "byte_io (pf_buf P)" "response_store (pf_lru P) entries valid"
    and "svc_inv P entries valid st0" "reachable P st0 s" "i < length (sys_tasks s)"
    and "\<And>j. sys_lock s = Some j \<Longrightarrow> \<exists>w. \<not> stalled (s\<lparr>sys_world := w\<rparr>) j"
  shows "\<exists>s'. sys_run P s s' \<and> ((\<exists>q r. sys_tasks s' ! i = Finished q r) \<or> (\<exists>q. sys_tasks s' ! i = Crashed q))"
proof -
  note libs = service_libs_intro [OF assms(1,2)]
  show ?thesis
    using service_libs.task_can_finish [OF libs service_libs.reachable_inv [OF libs assms(4,3)] assms(5,6)]
    by (auto simp: steps_left_zero)
qed

text \<open>A datagram that waits for the lock, which a connection keeps whose client does read.\<close>

theorem queries_finish_witness:
  "\<forall>U. \<exists>s s'. reachable (sample_platform wire_clock U) (cached_service U) s
    \<and> sys_tasks s = [Arrived sample_query] \<and> sys_lock s = Some 0 \<and> sys_run (sample_platform wire_clock U) s s'
    \<and> ((\<exists>q r. sys_tasks s' ! 0 = Finished q r) \<or> (\<exists>q. sys_tasks s' ! 0 = Crashed q))"
proof
  fix U
  let ?P = "sample_platform wire_clock U"
  obtain reply s where s: "reachable ?P (cached_service U) s" "sys_tasks s = [Arrived sample_query]"
      "sys_lock s = Some 0" "sys_conns s ! 0 = (mem_stream, SendingHit second_query reply)"
    using waiting_datagram [OF refl, of U] by blast
  have reads: "\<not> stalled (s\<lparr>sys_world := w\<rparr>) 0" for w
    using s(4) by (simp add: stalled_def send_framed_def mem_stream_def split_beta)
  have "\<exists>s'. sys_run ?P s s' \<and> ((\<exists>q r. sys_tasks s' ! 0 = Finished q r) \<or> (\<exists>q. sys_tasks s' ! 0 = Crashed q))"
  proof (rule queries_finish [OF sample_buf sample_lru cached_service_inv s(1)])
    show "\<exists>w. \<not> stalled (s\<lparr>sys_world := w\<rparr>) j" if "sys_lock s = Some j" for j
      using that s(3) reads by auto
  qed (simp add: s(2))
  with s(1-3) show "\<exists>s s'. reachable ?P (cached_service U) s
    \<and> sys_tasks s = [Arrived sample_query] \<and> sys_lock s = Some 0 \<and> sys_run ?P s s'
    \<and> ((\<exists>q r. sys_tasks s' ! 0 = Finished q r) \<or> (\<exists>q. sys_tasks s' ! 0 = Crashed q))" by blast
qed

text \<open>C10: a client that does not read stops the service. Once a connection has found its reply in the
  cache, and its client never takes that reply, then the connection has the lock of the cache and
  keeps it for ever: whatever everybody does, the shared state stays as it is, and no datagram
  and no other connection gets ahead that must look into the cache or store an answer.\<close>

theorem slow_client_blocks_cache:
  assumes "reachable P st0 s" "i < length (sys_conns s)" "sys_conns s ! i = (S, SendingHit query r)"
    and "\<And>w. fst (send_framed S r w) = WritePending" "sys_run P s s'"
  shows "sys_lock s' = Some i \<and> sys_state s' = sys_state s
    \<and> (\<forall>j < length (sys_tasks s).
        task_locks P (sys_state s) (sys_tasks s ! j) \<longrightarrow> sys_tasks s' ! j = sys_tasks s ! j)
    \<and> (\<forall>j < length (sys_conns s).
        conn_locks P (sys_state s) (snd (sys_conns s ! j)) \<longrightarrow> sys_conns s' ! j = sys_conns s ! j)"
  using unread_reply [OF assms] by (simp add: waiters_stay_def)

text \<open>The client that does not read asks for a cached name; then a datagram arrives, and is stuck: it
  cannot even look into the cache, whatever happens from then on.\<close>

theorem slow_client_blocks_cache_witness:
  "\<forall>U. \<exists>s. reachable (sample_platform wire_clock U) (cached_service U) s
    \<and> sys_tasks s = [Arrived sample_query]
    \<and> (\<nexists>s'. sys_run (sample_platform wire_clock U) s s' \<and> sys_tasks s' ! 0 \<noteq> Arrived sample_query)"
proof
  fix U
  let ?P = "sample_platform wire_clock U"
  obtain reply s where s: "reachable ?P (cached_service U) s" "sys_tasks s = [Arrived sample_query]"
      "svc_filter (sys_state s) = engine_new" "length (sys_conns s) = 1"
      "sys_conns s ! 0 = (unread_stream, SendingHit second_query reply)"
    using waiting_datagram [of unread_stream U] by (auto simp: unread_stream_def)
  have pend: "fst (send_framed unread_stream reply w) = WritePending" for w
    by (simp add: send_framed_def unread_stream_def)
  have "looks_up ?P (sys_state s) sample_query"
    by (simp add: looks_up_def sample_query_parse s(3) is_blocked_def engine_new_allows query_questions)
  then have w: "0 < length (sys_conns s)" "0 < length (sys_tasks s)"
      "task_locks ?P (sys_state s) (sys_tasks s ! 0)"
    using s(2,4) by simp_all
  have "sys_tasks s' ! 0 = Arrived sample_query" if "sys_run ?P s s'" for s'
    using slow_client_blocks_cache [OF s(1) w(1) s(5) pend that] w(2,3) s(2) by (metis nth_Cons_0)
  with s(1,2) show "\<exists>s. reachable ?P (cached_service U) s \<and> sys_tasks s = [Arrived sample_query]
    \<and> (\<nexists>s'. sys_run ?P s s' \<and> sys_tasks s' ! 0 \<noteq> Arrived sample_query)" by blast
qed

text \<open>C11: the steps of a datagram's task refine the function: a query whose task takes all the steps,
  with none of anybody else and no change of the world between them, gets the reply, and leaves
  the state and the world, that \<open>resolve_dns_query\<close> computes.\<close>

theorem steps_refine_resolve:
  assumes "resolve_dns_query P query st w = (Ok r, st', w')"
  shows "own_run P (Task 0) (lone_task (Arrived query) st w) (lone_task (Finished query r) st' w')"
  using assms by (rule resolve_as_steps)

theorem steps_refine_resolve_witness:
  "\<forall>U. \<exists>st w. own_run (sample_platform clock U) (Task 0) (lone_task (Arrived sample_query) (sample_service U) 0)
    (lone_task (Finished sample_query (Some sample_answer)) st w)"
proof
  fix U
  obtain st w where r: "resolve_dns_query (sample_platform clock U) sample_query (sample_service U) 0 =
      (Ok (Some sample_answer), st, w)"
    using sample_resolution [where tick = clock and U = U and w = 0] by blast
  from steps_refine_resolve [OF r]
  show "\<exists>st w. own_run (sample_platform clock U) (Task 0) (lone_task (Arrived sample_query) (sample_service U) 0)
    (lone_task (Finished sample_query (Some sample_answer)) st w)" by blast
qed

text \<open>C12: the steps of a connection refine the loop: a connection that takes all the steps, with none of
  anybody else and no change of the world between them, ends in success or error as
  \<open>serve_tcp_dns\<close> says, with its state and its world, in which its client has been sent the
  same bytes.\<close>

theorem steps_refine_connection:
  assumes "serve_tcp_dns P S st w = Some (r, st', w')" "outcome_end r = Some c"
  shows "own_run P (Conn 0) (lone_conn S Reading st w) (lone_conn S c st' w')"
  using assms by (rule serve_as_steps)

text \<open>A client that closes its side at once.\<close>

lemma mem_stream_closed:
  "serve_tcp_dns P mem_stream st (t, [], out) = Some (Ok (), st, (t, [], out))"
  by (subst serve_tcp_dns.simps) (simp add: tcp_turn_def read_message_def mem_stream_def)

lemma sample_connection:
  "\<exists>st w. serve_tcp_dns (sample_platform wire_clock U) mem_stream (sample_service U)
      (0, frame sample_query, []) = Some (Ok (), st, w) \<and> wire_sent w = frame sample_answer"
proof -
  let ?P = "sample_platform wire_clock U" and ?st = "sample_service U" and ?w = "(0, [], []) :: wire"
  obtain x st2 w2 where a: "tcp_answer ?P mem_stream sample_query ?st ?w = (x, st2, w2)"
    by (metis prod.collapse)
  obtain st1 w1 where r: "resolve_dns_query ?P sample_query ?st ?w = (Ok (Some sample_answer), st1, w1)"
    using sample_resolution [where tick = wire_clock and U = U and w = ?w] by blast
  have o: "records_output mem_stream (pf_net ?P) wire_sent" "finite_input mem_stream (pf_net ?P) wire_avail"
    by (simp_all add: mem_records mem_finite)
  have x: "x = Ok Again" "wire_sent w2 = frame sample_answer"
    using service_libs.tcp_answer_resolves [OF sample_libs o(1) sample_service_inv r a]
    by (simp_all add: wire_sent_def)
  have "wire_avail w2 \<le> wire_avail ?w" using tcp_answer_keeps [OF finite_input_keeps [OF o(2)] a] .
  then obtain t out where w2: "w2 = (t, [], out)" by (cases w2) (auto simp: wire_avail_def)
  have "read_message mem_stream (0, frame sample_query, []) = (Ok (Some sample_query), ?w)"
    by (simp add: read_message_def mem_stream_def frame_def bytes16_def be16_def sample_query_def)
  then have "serve_tcp_dns ?P mem_stream ?st (0, frame sample_query, []) = serve_tcp_dns ?P mem_stream st2 w2"
    using a x(1) by (subst serve_tcp_dns.simps) (simp add: tcp_turn_def)
  then show ?thesis using mem_stream_closed [of ?P st2 t out] x(2) unfolding w2 by metis
qed

theorem steps_refine_connection_witness:
  "\<forall>U. \<exists>st w. own_run (sample_platform wire_clock U) (Conn 0)
     (lone_conn mem_stream Reading (sample_service U) (0, frame sample_query, []))
     (lone_conn mem_stream (Ended (Inr ())) st w) \<and> wire_sent w = frame sample_answer"
proof
  fix U
  obtain st w where c: "serve_tcp_dns (sample_platform wire_clock U) mem_stream (sample_service U)
      (0, frame sample_query, []) = Some (Ok (), st, w)" "wire_sent w = frame sample_answer"
    using sample_connection [of U] by blast
  from steps_refine_connection [OF c(1)] c(2)
  show "\<exists>st w. own_run (sample_platform wire_clock U) (Conn 0)
     (lone_conn mem_stream Reading (sample_service U) (0, frame sample_query, []))
     (lone_conn mem_stream (Ended (Inr ())) st w) \<and> wire_sent w = frame sample_answer"
    by (metis outcome_end.simps(1))
qed

text \<open>C25: what an upstream answers is remembered: when the query is done, the cache holds the parsed
  answer under the name and type that were asked, with its lifetime clamped.\<close>

theorem upstream_answer_remembered:
  assumes "byte_io (pf_buf P)" "response_store (pf_lru P) entries valid"
    and "svc_inv P entries valid st"
    and "resolve_front P query st w = (Ok (NeedUpstream packet question), sta, wa)"
    and "resolve_dns_query P query st w = (Ok (Some resp), st', w')"
    and "packet_parse (pf_buf P) (pf_unicode P) resp = Ok p"
  shows "\<exists>t. cache_map entries (svc_cache st')
      (cache_key (pf_unicode P) (q_name question) (q_type question)) =
    Some (new_entry (min_ttl (svc_cache sta)) (max_ttl (svc_cache sta)) t (q_type question) p)"
  by (rule service_libs.upstream_answer_cached [OF service_libs_intro [OF assms(1,2)] assms(3-6)])

theorem upstream_answer_remembered_witness:
  "\<forall>U. \<exists>st' w' e. resolve_dns_query (sample_platform clock U) sample_query (sample_service U) 0 =
      (Ok (Some sample_answer), st', w')
    \<and> cache_map snd (svc_cache st') (lit ''a'', QT_A) = Some e \<and> cr_packet e = answer_packet"
proof
  fix U
  let ?P = "sample_platform clock U"
  obtain sta wa where f: "resolve_front ?P sample_query (sample_service U) 0 =
      (Ok (NeedUpstream query_packet sample_question), sta, wa)"
    using sample_front [where tick = clock and U = U and w = 0] by blast
  obtain st' w' where r: "resolve_dns_query ?P sample_query (sample_service U) 0 =
      (Ok (Some sample_answer), st', w')"
    using sample_resolution [where tick = clock and U = U and w = 0] by blast
  have p: "packet_parse (pf_buf ?P) (pf_unicode ?P) sample_answer = Ok answer_packet"
    by (simp add: sample_answer_parse)
  have "cache_key U (q_name sample_question) (q_type sample_question) = (lit ''a'', QT_A)"
    by (simp add: sample_question_def key_eval)
  with upstream_answer_remembered [OF sample_buf sample_lru sample_service_inv f r p] r
  show "\<exists>st' w' e. resolve_dns_query ?P sample_query (sample_service U) 0 =
      (Ok (Some sample_answer), st', w')
    \<and> cache_map snd (svc_cache st') (lit ''a'', QT_A) = Some e \<and> cr_packet e = answer_packet"
    by (auto simp: new_entry_def)
qed

text \<open>C36: a reply from the cache carries the identifier of the query that filled the cache, not that
  of the query it answers: whatever the query, its first two bytes are those of the cached
  response.\<close>

theorem cache_hit_keeps_old_id:
  assumes "byte_io (pf_buf P)" "response_store (pf_lru P) entries valid"
    and "svc_inv P entries valid st" "asks P query packet question"
    and "\<not> is_blocked (pf_unicode P) (svc_filter st) (q_name question)"
    and "cache_map entries (svc_cache st)
        (cache_key (pf_unicode P) (q_name question) (q_type question)) = Some e"
    and "net_now (pf_net P) w = (t, w0)" "\<not> is_expired t e"
  shows "\<exists>reply st' w'. resolve_dns_query P query st w = (Ok (Some reply), st', w')
    \<and> take 2 reply = bytes16 (id_of (header (cr_packet e)))"
proof -
  note libs = service_libs_intro [OF assms(1,2)]
  obtain hit st1 w1 where l: "lookup_cache P question st w = (hit, st1, w1)" by (metis prod.collapse)
  obtain ttl where "hit = Some (served ttl (cr_packet e))"
    using service_libs.lookup_cache_hit [OF libs assms(3) l assms(7,6,8)] by blast
  then have "resolve_dns_query P query st w =
      (Ok (Some (to_bytes (pf_buf P) (served ttl (cr_packet e)))), st1, w1)"
    using assms(4,5) l
    by (auto simp: resolve_dns_query_def resolve_front_def asks_def is_blocked_def
        split: filter_result.splits)
  then show ?thesis using to_bytes_id [OF assms(1), of "served ttl (cr_packet e)"]
    by (simp add: served_def)
qed

theorem cache_hit_keeps_old_id_witness:
  "\<forall>U. \<exists>reply st' w'. resolve_dns_query (sample_platform clock U) second_query (cached_service U) 0 =
      (Ok (Some reply), st', w')
    \<and> take 2 second_query = [0xAB, 0xCD] \<and> take 2 reply = [0x12, 0x34]"
proof
  fix U
  let ?P = "sample_platform clock U" and ?st = "cached_service U"
  let ?e = "new_entry (from_secs 60) (from_secs 86400) 0 QT_A answer_packet"
  have ask: "asks ?P second_query (query_packet\<lparr>header := (header query_packet)\<lparr>id_of := 0xABCD\<rparr>\<rparr>) sample_question"
    by (simp add: asks_def second_query_parse) (simp add: query_packet_def)
  have nb: "\<not> is_blocked (pf_unicode ?P) (svc_filter ?st) (q_name sample_question)"
    by (simp add: is_blocked_def cached_service_def engine_new_allows)
  have m: "cache_map snd (svc_cache ?st) (cache_key (pf_unicode ?P) (q_name sample_question)
      (q_type sample_question)) = Some ?e"
    using sample_key [of U] cached_service_map by simp
  have now: "net_now (pf_net ?P) 0 = (0, 1)" by (simp add: fixed_net_def clock_def)
  have live: "\<not> is_expired 0 ?e" by (simp add: is_expired_def elapsed_def new_entry_def from_secs_def)
  have "bytes16 (id_of (header (cr_packet ?e))) = [0x12, 0x34]"
    by (simp add: new_entry_def answer_packet_def query_packet_def bytes16_def)
  with cache_hit_keeps_old_id [OF sample_buf sample_lru cached_service_inv ask nb m now live]
  show "\<exists>reply st' w'. resolve_dns_query ?P second_query ?st 0 = (Ok (Some reply), st', w')
    \<and> take 2 second_query = [0xAB, 0xCD] \<and> take 2 reply = [0x12, 0x34]"
    by (simp add: second_query_def)
qed

text \<open>C39: the block mode is validated without regard to case but compared exactly: of a configuration
  that loads with \<open>nxdomain\<close> in another case, validation thinks as of one with \<open>nxdomain\<close>, but the
  server that is started from it answers A queries for blocked names with the address 0.0.0.0,
  as \<open>zero_ip\<close> would.\<close>

theorem block_mode_case:
  assumes "byte_io (pf_buf P)" "load_from_file (pf_unicode P) getenv T rd path = Inr c"
    and "to_lowercase (pf_unicode P) (block_mode c) = lit ''nxdomain''" "block_mode c \<noteq> lit ''nxdomain''"
    and "same_settings (start_service P getenv T rd path) st"
    and "wire_packet (pf_unicode P) p" "questions p = q # qs" "q_type q = QT_A"
    and "length (answers p) < 65535" "is_blocked (pf_unicode P) (svc_filter st) (q_name q)"
  shows "validate (pf_unicode P) getenv c =
      validate (pf_unicode P) getenv (c\<lparr>block_mode := lit ''nxdomain''\<rparr>)
    \<and> (\<exists>reply. resolve_dns_query P (to_bytes (pf_buf P) p) st w = (Ok (Some reply), st, w)
        \<and> packet_parse (pf_buf P) (pf_unicode P) reply = Ok (zero_ip_reply p q))"
proof
  have "ascii (lit ''nxdomain'')" by (simp add: ascii_def lit_simps)
  then have "to_lowercase (pf_unicode P) (lit ''nxdomain'') = lit ''nxdomain''"
    by (simp add: to_lowercase_ascii ascii_lower_def lit_simps)
  then show "validate (pf_unicode P) getenv c =
      validate (pf_unicode P) getenv (c\<lparr>block_mode := lit ''nxdomain''\<rparr>)"
    using assms(3) unfolding validate_def Let_def by simp
  have "svc_block_mode st \<noteq> lit ''nxdomain''"
    using assms(2,4,5) by (simp add: same_settings_def start_service_def effective_config_def)
  from blocked_zero_ip_bytes [OF assms(1,6-10) this]
  show "\<exists>reply. resolve_dns_query P (to_bytes (pf_buf P) p) st w = (Ok (Some reply), st, w)
        \<and> packet_parse (pf_buf P) (pf_unicode P) reply = Ok (zero_ip_reply p q)" .
qed

text \<open>A configuration with \<open>NXDOMAIN\<close> and one block list, which holds the line \<open>ads.io\<close>.\<close>

definition shouting_toml :: toml_api where
  "shouting_toml = sample_toml\<lparr>toml_flat := (\<lambda>s. Inr (server_config_default
     \<lparr>block_mode := lit ''NXDOMAIN'', blocklist_paths := [lit ''b'']\<rparr>))\<rparr>"

lemma shouting_loads:
  "load_from_file U (\<lambda>x. None) shouting_toml (\<lambda>p. Inr (lit ''ads.io'')) (lit ''f'') =
    Inr (server_config_default\<lparr>block_mode := lit ''NXDOMAIN'', blocklist_paths := [lit ''b'']\<rparr>)"
  by (simp add: load_from_file_def shouting_toml_def sample_toml_def finish_config_def validate_def Let_def
      apply_tls_env_overrides_def server_config_default_def to_lowercase_def char_lower_def
      ascii_lower_def lit_simps)

lemma shouting_blocks:
  "is_blocked U (load_filters U (\<lambda>x. None) (\<lambda>p. Inr (lit ''ads.io''))
     (server_config_default\<lparr>block_mode := lit ''NXDOMAIN'', blocklist_paths := [lit ''b'']\<rparr>)) (lit ''x.ads.io'')"
proof -
  let ?c = "server_config_default\<lparr>block_mode := lit ''NXDOMAIN'', blocklist_paths := [lit ''b'']\<rparr>"
  let ?rd = "\<lambda>p. Inr (lit ''ads.io'') :: string + rstr"
  have lines: "str_lines (lit ''ads.io'') = [lit ''ads.io'']"
    by (simp add: str_lines_def strip_cr_def lit_simps)
  have h: "hostname (lit ''ads.io'')" by (simp add: hostname_def ascii_def is_ws_def lit_simps)
  have tn: "trie_normalize U [97, 100, 115, 46, 105, 111] = [97, 100, 115, 46, 105, 111]"
    using normalize_hostname [OF h, of U] by (simp add: lit_simps trim_end_char_def ascii_lower_def)
  have line: "\<not> exception_line (lit ''ads.io'')" "rule_name U (lit ''ads.io'') = Some (lit ''ads.io'')"
    by (simp_all add: exception_line_def rule_name_def trim_def is_ws_def starts_with_def lit_simps
        comment_or_empty_def rule_text_def tn)
  have r: "\<Union> (file_blocks U ` readable ?rd h [lit ''b'']) = {lit ''ads.io''}"
      "\<Union> (file_allows U ` readable ?rd h [lit ''b'']) = {}" for h
    using line by (auto simp: readable_def file_blocks_def file_allows_def lines)
  have e0: "block_names engine_new = {}" "allow_names engine_new = {}"
    by (simp_all add: block_names_def allow_names_def engine_new_def trie_new_def)
  have f: "load_filters U (\<lambda>x. None) ?rd ?c =
      fold (load_blocklist_path U ?rd (lit ''/tmp'')) [lit ''b''] engine_new"
    by (simp add: load_filters_def server_config_default_def)
  have n: "map ascii_lower (trim_end_char 46 (lit ''x.ads.io'')) = lit ''x.ads.io''"
    "covers {lit ''ads.io''} (lit ''x.ads.io'')"
    using ads_query_facts(3) by (auto simp: covers_def under_def lit_simps intro!: exI [of _ "lit ''x''"])
  show ?thesis
    unfolding f using load_blocklist_paths [OF engine_inv_new, of U ?rd "lit ''/tmp''" "[lit ''b'']"]
    by (subst is_blocked_iff [OF _ ads_query_facts(2)]) (simp_all add: r e0 n covers_def [of "{}"])
qed

theorem block_mode_case_witness:
  "\<forall>U w. \<exists>reply st. st = start_service (sample_platform clock U) (\<lambda>x. None) shouting_toml
        (\<lambda>p. Inr (lit ''ads.io'')) (lit ''f'')
    \<and> resolve_dns_query (sample_platform clock U) (to_bytes slice_api ads_query) st w = (Ok (Some reply), st, w)
    \<and> packet_parse slice_api U reply = Ok (zero_ip_reply ads_query (hd (questions ads_query)))"
proof (intro allI)
  fix U w
  let ?P = "sample_platform clock U" and ?rd = "\<lambda>p. Inr (lit ''ads.io'') :: string + rstr"
  let ?st = "start_service ?P (\<lambda>x. None) shouting_toml ?rd (lit ''f'')"
  let ?q = "\<lparr>q_name = lit ''x.ads.io'', q_type = QT_A, q_class = QC_IN\<rparr>"
  note load = shouting_loads [of "pf_unicode ?P"]
  have q: "questions ads_query = ?q # []" "answers ads_query = []"
    by (simp_all add: ads_query_def query_packet_def)
  have b: "is_blocked (pf_unicode ?P) (svc_filter ?st) (q_name ?q)"
    using shouting_blocks [of U] load by (simp add: start_service_def effective_config_def Let_def)
  have m: "to_lowercase (pf_unicode ?P) (lit ''NXDOMAIN'') = lit ''nxdomain''" "lit ''NXDOMAIN'' \<noteq> lit ''nxdomain''"
    by (simp_all add: lit_simps to_lowercase_def char_lower_def ascii_lower_def)
  from block_mode_case [OF sample_buf load _ _ same_settings_refl _ q(1) _ _ b, of w] m q ads_query_facts(1) [of U]
  show "\<exists>reply st. st = ?st
    \<and> resolve_dns_query ?P (to_bytes slice_api ads_query) st w = (Ok (Some reply), st, w)
    \<and> packet_parse slice_api U reply = Ok (zero_ip_reply ads_query (hd (questions ads_query)))"
    by simp
qed

section \<open>Properties of the start-up\<close>

text \<open>C30: the filter of a started server is made of exactly the files that could be read: the block
  list holds the names of their rule lines, the allow list those of the exception lines of the
  block list files and of the lines of the allow list files; a file that cannot be read is left
  out and nothing else.\<close>

theorem started_filter_names:
  "block_names (load_filters U getenv rd c) =
      \<Union> (file_blocks U ` readable rd (home_of getenv) (blocklist_paths c))
   \<and> allow_names (load_filters U getenv rd c) =
      \<Union> (file_allows U ` readable rd (home_of getenv) (blocklist_paths c))
      \<union> \<Union> (allow_file_names U ` readable rd (home_of getenv) (allowlist_paths c))"
proof -
  have e: "block_names engine_new = {}" "allow_names engine_new = {}"
    by (simp_all add: block_names_def allow_names_def engine_new_def trie_new_def)
  note b = load_blocklist_paths [OF engine_inv_new, of U rd "home_of getenv" "blocklist_paths c"]
  from load_allowlist_paths [OF conjunct1 [OF b], of U rd "home_of getenv" "allowlist_paths c"] b e
  show ?thesis by (simp add: load_filters_def home_of_def Let_def)
qed

text \<open>C34: the acceptor is built exactly when certificate and key file can be opened and read to their
  end and the library takes the certificates with the first PKCS#8 or PKCS#1 key of the file;
  keys of another kind (SEC1) are passed over.\<close>

theorem acceptor_uses_first_key:
  "build_tls_acceptor A c = Inr (Some a) \<longleftrightarrow>
     (\<exists>cp kp cf kf certs key rest. tls_cert_path c = Some cp \<and> tls_key_path c = Some kp
        \<and> tls_open A cp = Inr cf \<and> tls_open A kp = Inr kf \<and> tls_certs A cf = Inr certs
        \<and> filter isl (tls_pem_items A kf) = []
        \<and> List.map_filter usable_key (tls_pem_items A kf) = key # rest
        \<and> tls_single_cert A certs key = Inr a)"
  by (auto simp: build_tls_acceptor_def collect_keys_filter dest: collect_keys_error
      split: option.splits sum.splits list.splits)

text \<open>C35: a server that starts is in order and listens where its configuration says: on the
  datagram socket, on the stream socket of the same address if TCP is on, and on the TLS port
  if TLS is, for which there is then an acceptor. Every state it can get to satisfies the
  invariant.\<close>

theorem server_starts:
  assumes "byte_io (pf_buf P)" "response_store (pf_lru P) entries valid"
    and "run_server P getenv T rd bind A path w = (Inr (s, ls), w')"
    and "c = effective_config (pf_unicode P) getenv T rd path" "sys_run P s s'"
  shows "ls = UdpOn (bind_addr c) # (if tcp_enabled c then [TcpOn (bind_addr c)] else [])
      @ (if tls_enabled c then [TlsOn (tls_bind_addr c)] else [])
    \<and> (tls_enabled c \<longrightarrow> (\<exists>a. build_tls_acceptor A c = Inr (Some a)))
    \<and> sys_tasks s = [] \<and> sys_conns s = []
    \<and> sys_inv P entries valid (start_service P getenv T rd path) s'"
proof -
  note libs = service_libs_intro [OF assms(1,2)] and ok = run_server_ok [OF assms(3)]
  have "reachable P (start_service P getenv T rd path) s'"
    using reachable_run [OF assms(5)] reachable.boot ok(1) by metis
  from service_libs.reachable_inv [OF libs this service_libs.start_service_inv [OF libs]]
  show ?thesis using ok run_server_acceptor [OF assms(3)] assms(4) by (simp add: booted_def Let_def)
qed

theorem server_starts_witness:
  "\<forall>U. \<exists>s. run_server (sample_platform clock U) (\<lambda>x. None) sample_toml no_file (\<lambda>l w. (Inr (), w))
      sample_tls (lit ''f'') 0 = (Inr (s, [UdpOn (bind_addr server_config_default)]), 0)
    \<and> sys_tasks s = [] \<and> svc_inv (sample_platform clock U) snd list_lru_valid (sys_state s)"
proof
  fix U
  let ?P = "sample_platform clock U" and ?bind = "\<lambda>l w. (Inr (), w) :: (string + unit) \<times> nat"
  have c: "effective_config U (\<lambda>x. None) sample_toml no_file (lit ''f'') = server_config_default"
    by (simp add: effective_config_def load_from_file_def no_file_def)
  obtain s ls where r: "run_server ?P (\<lambda>x. None) sample_toml no_file ?bind sample_tls (lit ''f'') 0 = (Inr (s, ls), 0)"
    by (simp add: run_server_def c open_listeners_def try_bind_def server_config_default_def Let_def)
  have d: "server_config_default = effective_config (pf_unicode ?P) (\<lambda>x. None) sample_toml no_file (lit ''f'')"
    by (simp add: c)
  have "tcp_enabled server_config_default = False" "tls_enabled server_config_default = False"
    by (simp_all add: server_config_default_def)
  with server_starts [OF sample_buf sample_lru r d sys_run_refl] r
  show "\<exists>s. run_server ?P (\<lambda>x. None) sample_toml no_file ?bind sample_tls (lit ''f'') 0 =
      (Inr (s, [UdpOn (bind_addr server_config_default)]), 0)
    \<and> sys_tasks s = [] \<and> svc_inv ?P snd list_lru_valid (sys_state s)"
    by (auto simp: sys_inv_def)
qed

end
